theory Spec2Isabelle
  imports Complex_Main
begin

section \<open>JavaScript strings and the string built-ins the program calls\<close>

text \<open>
  A JavaScript string is a sequence of UTF-16 code units; a code unit is modelled as a
  natural number, so that \<open>length\<close> is the program's \<open>.length\<close> and the currency
  symbols of the patterns (U+00A3, U+00A5, U+20AC) are single elements. Literals are
  written \<open>js ''...''\<close> for ASCII text.
\<close>

type_synonym jsstring = "nat list"

definition js :: "string \<Rightarrow> jsstring" where
  "js s = map of_char s"

text \<open>
  A character class of a regular expression: a list of inclusive code-unit ranges,
  plain (\<open>[...]\<close>) or negated (\<open>[^...]\<close>).
\<close>

datatype charclass = Pos "(nat \<times> nat) list" | Neg "(nat \<times> nat) list"

fun in_ranges :: "(nat \<times> nat) list \<Rightarrow> nat \<Rightarrow> bool" where
  "in_ranges [] c = False"
| "in_ranges ((lo, hi) # rs) c = ((lo \<le> c \<and> c \<le> hi) \<or> in_ranges rs c)"

fun in_class :: "charclass \<Rightarrow> nat \<Rightarrow> bool" where
  "in_class (Pos rs) c = in_ranges rs c"
| "in_class (Neg rs) c = (\<not> in_ranges rs c)"

text \<open>\<open>\d\<close>, \<open>\w\<close> and \<open>\s\<close> as ECMAScript defines them (no \<open>u\<close> or \<open>i\<close> flag).\<close>

definition digit_ranges :: "(nat \<times> nat) list" where
  "digit_ranges = [(48, 57)]"

definition word_ranges :: "(nat \<times> nat) list" where
  "word_ranges = [(97, 122), (65, 90), (48, 57), (95, 95)]"

definition space_ranges :: "(nat \<times> nat) list" where
  "space_ranges = [(9, 13), (32, 32), (160, 160), (5760, 5760), (8192, 8202),
     (8232, 8233), (8239, 8239), (8287, 8287), (12288, 12288), (65279, 65279)]"

definition alnum_ranges :: "(nat \<times> nat) list" where
  "alnum_ranges = [(97, 122), (65, 90), (48, 57)]"

definition is_digit :: "nat \<Rightarrow> bool" where
  "is_digit c = in_ranges digit_ranges c"

definition is_space :: "nat \<Rightarrow> bool" where
  "is_space c = in_ranges space_ranges c"

text \<open>\<open>s.replace(/[class]/g, repl)\<close>: every code unit of the class is replaced.\<close>

fun replace_class :: "charclass \<Rightarrow> jsstring \<Rightarrow> jsstring \<Rightarrow> jsstring" where
  "replace_class cl repl [] = []"
| "replace_class cl repl (c # cs) =
     (if in_class cl c then repl @ replace_class cl repl cs
      else c # replace_class cl repl cs)"

text \<open>
  \<open>padStart\<close> and \<open>padEnd\<close>: the filler is repeated and truncated to the missing
  length; nothing happens when the string is long enough or the filler is empty.
\<close>

definition pad_fill :: "nat \<Rightarrow> jsstring \<Rightarrow> jsstring" where
  "pad_fill n filler = take n (concat (replicate n filler))"

definition padStart :: "jsstring \<Rightarrow> nat \<Rightarrow> jsstring \<Rightarrow> jsstring" where
  "padStart s n filler =
     (if n \<le> length s \<or> filler = [] then s else pad_fill (n - length s) filler @ s)"

definition padEnd :: "jsstring \<Rightarrow> nat \<Rightarrow> jsstring \<Rightarrow> jsstring" where
  "padEnd s n filler =
     (if n \<le> length s \<or> filler = [] then s else s @ pad_fill (n - length s) filler)"

text \<open>
  \<open>s.substring(from, to)\<close>: both positions are clamped to the length and swapped when
  out of order; \<open>s.substring(from)\<close> runs to the end.
\<close>

definition substring :: "jsstring \<Rightarrow> nat \<Rightarrow> nat \<Rightarrow> jsstring" where
  "substring s from to =
     (let a = min from (length s); b = min to (length s)
      in take (max a b - min a b) (drop (min a b) s))"

definition substring_from :: "jsstring \<Rightarrow> nat \<Rightarrow> jsstring" where
  "substring_from s from = substring s from (length s)"

text \<open>
  \<open>toUpperCase\<close> on the basic Latin letters. The program applies it only to strings it
  has reduced to \<open>[a-zA-Z0-9]\<close> and spaces, where the built-in is this mapping.
\<close>

definition upper_unit :: "nat \<Rightarrow> nat" where
  "upper_unit c = (if 97 \<le> c \<and> c \<le> 122 then c - 32 else c)"

definition toUpperCase :: "jsstring \<Rightarrow> jsstring" where
  "toUpperCase s = map upper_unit s"

section \<open>DataSanitizers.ts: the ZIP and SSN sanitizers\<close>

datatype countryFormat = US | CA | UK | Other

text \<open>\<open>ZipCodeSanitizer.formatZipCode\<close>, with the two constructor options as arguments.\<close>

definition formatZipCode :: "countryFormat \<Rightarrow> bool \<Rightarrow> jsstring \<Rightarrow> jsstring" where
  "formatZipCode country keepExtendedFormat zipCode =
     (if zipCode = [] then []
      else
        let cleanZip = replace_class (Neg alnum_ranges) [] zipCode in
        case country of
          US \<Rightarrow>
            if length cleanZip \<le> 5 then padStart cleanZip 5 (js ''0'')
            else if keepExtendedFormat \<and> length cleanZip \<le> 9 then
              substring cleanZip 0 5 @ js ''-'' @ padEnd (substring_from cleanZip 5) 4 (js ''0'')
            else if keepExtendedFormat then
              substring cleanZip 0 5 @ js ''-'' @ substring cleanZip 5 9
            else substring cleanZip 0 5
        | CA \<Rightarrow>
            if length cleanZip \<le> 6 then padEnd (toUpperCase cleanZip) 6 (js ''0'')
            else
              let formatted = substring (toUpperCase cleanZip) 0 6
              in substring formatted 0 3 @ js '' '' @ substring_from formatted 3
        | UK \<Rightarrow>
            if length cleanZip \<le> 4 then toUpperCase cleanZip
            else
              let outcode = substring cleanZip 0 (length cleanZip - 3);
                  incode = substring_from cleanZip (length cleanZip - 3)
              in toUpperCase (outcode @ js '' '' @ incode)
        | Other \<Rightarrow> cleanZip)"

text \<open>The three output formats of the SSN sanitizer (a closed union type in the source).\<close>

datatype ssnFormat = SSN_Dashed | SSN_Digits | SSN_Masked

text \<open>\<open>SsnSanitizer.formatSSN\<close>.\<close>

definition formatSSN :: "ssnFormat \<Rightarrow> jsstring \<Rightarrow> jsstring" where
  "formatSSN fmt ssn =
     (let digits = replace_class (Neg digit_ranges) [] ssn in
      if length digits = 0 then ssn
      else
        let paddedDigits = substring (padEnd digits 9 (js ''0'')) 0 9 in
        case fmt of
          SSN_Dashed \<Rightarrow>
            substring paddedDigits 0 3 @ js ''-'' @ substring paddedDigits 3 5 @ js ''-''
              @ substring_from paddedDigits 5
        | SSN_Digits \<Rightarrow> paddedDigits
        | SSN_Masked \<Rightarrow>
            substring paddedDigits 0 3 @ js ''-'' @ substring paddedDigits 3 5 @ js ''-****'')"

text \<open>The nine digits the sanitizer works on: the input's digits, zero-filled, cut at nine.\<close>

definition ssn_nine :: "jsstring \<Rightarrow> jsstring" where
  "ssn_nine s = take 9 (filter is_digit s @ replicate 9 48)"

text \<open>The units that the cleaning step of the ZIP sanitizer keeps.\<close>

definition alnum :: "nat \<Rightarrow> bool" where
  "alnum c = in_ranges alnum_ranges c"

definition all_alnum :: "jsstring \<Rightarrow> bool" where
  "all_alnum s = list_all alnum s"

section \<open>Regular expressions\<close>

text \<open>
  The patterns of the program use character classes, sequencing, alternation, optional
  parts and bounded or unbounded repetition, with no back-references or look-around, so
  \<open>pattern.test(s)\<close> is membership of \<open>s\<close> in the pattern's language. Membership is
  computed with derivatives.
\<close>

datatype regex =
    Nothing
  | Eps
  | Chr charclass
  | Seq regex regex
  | Alt regex regex
  | Star regex

fun nullable :: "regex \<Rightarrow> bool" where
  "nullable Nothing = False"
| "nullable Eps = True"
| "nullable (Chr cl) = False"
| "nullable (Seq r s) = (nullable r \<and> nullable s)"
| "nullable (Alt r s) = (nullable r \<or> nullable s)"
| "nullable (Star r) = True"

fun deriv :: "nat \<Rightarrow> regex \<Rightarrow> regex" where
  "deriv c Nothing = Nothing"
| "deriv c Eps = Nothing"
| "deriv c (Chr cl) = (if in_class cl c then Eps else Nothing)"
| "deriv c (Seq r s) =
     (if nullable r then Alt (Seq (deriv c r) s) (deriv c s) else Seq (deriv c r) s)"
| "deriv c (Alt r s) = Alt (deriv c r) (deriv c s)"
| "deriv c (Star r) = Seq (deriv c r) (Star r)"

fun matches :: "regex \<Rightarrow> jsstring \<Rightarrow> bool" where
  "matches r [] = nullable r"
| "matches r (c # cs) = matches (deriv c r) cs"

text \<open>The pattern syntax: \<open>r?\<close>, \<open>r+\<close>, \<open>r{n}\<close>, \<open>r{n,m}\<close>, \<open>r{n,}\<close>, a literal and \<open>.*\<close>.\<close>

definition opt :: "regex \<Rightarrow> regex" where
  "opt r = Alt r Eps"

definition plus :: "regex \<Rightarrow> regex" where
  "plus r = Seq r (Star r)"

fun rep :: "nat \<Rightarrow> regex \<Rightarrow> regex" where
  "rep 0 r = Eps"
| "rep (Suc n) r = Seq r (rep n r)"

fun rep_upto :: "nat \<Rightarrow> regex \<Rightarrow> regex" where
  "rep_upto 0 r = Eps"
| "rep_upto (Suc n) r = opt (Seq r (rep_upto n r))"

definition rep_range :: "nat \<Rightarrow> nat \<Rightarrow> regex \<Rightarrow> regex" where
  "rep_range n m r = Seq (rep n r) (rep_upto (m - n) r)"

definition rep_min :: "nat \<Rightarrow> regex \<Rightarrow> regex" where
  "rep_min n r = Seq (rep n r) (Star r)"

fun seqs :: "regex list \<Rightarrow> regex" where
  "seqs [] = Eps"
| "seqs [r] = r"
| "seqs (r # rs) = Seq r (seqs rs)"

definition unit_of :: "char \<Rightarrow> nat \<times> nat" where
  "unit_of c = (of_char c, of_char c)"

definition units_from :: "char \<Rightarrow> char \<Rightarrow> nat \<times> nat" where
  "units_from a b = (of_char a, of_char b)"

definition lit :: "char \<Rightarrow> regex" where
  "lit c = Chr (Pos [unit_of c])"

definition digit :: regex where
  "digit = Chr (Pos digit_ranges)"

definition anything :: regex where
  "anything = Star (Chr (Neg []))"

text \<open>
  An unanchored end. \<open>/^A/\<close> accepts the strings with a prefix in \<open>A\<close>, \<open>/B$/\<close> those
  with a suffix in \<open>B\<close> (\<open>$\<close> is the end of the input: no \<open>m\<close> flag is used), and
  \<open>/^A$/\<close> the strings of \<open>A\<close>.
\<close>

definition starts_with :: "regex \<Rightarrow> regex" where
  "starts_with r = Seq r anything"

definition ends_with :: "regex \<Rightarrow> regex" where
  "ends_with r = Seq anything r"

section \<open>Cell values\<close>

text \<open>
  What a cell of a sheet or of a row object holds: a string, a number, a boolean, or
  \<open>null\<close>. Numbers of a sheet are finite and are modelled as rationals. The workbook is
  read without the option that yields date objects, so no cell is a \<open>Date\<close>.
\<close>

datatype cell = CStr jsstring | CNum rat | CBool bool | CNull

datatype jstype = TString | TNumber | TBoolean | TObject

fun typeof :: "cell \<Rightarrow> jstype" where
  "typeof (CStr s) = TString"
| "typeof (CNum n) = TNumber"
| "typeof (CBool b) = TBoolean"
| "typeof CNull = TObject"

text \<open>A value used as a condition (\<open>v && ...\<close>, \<open>v ? ... : ...\<close>).\<close>

fun truthy :: "cell \<Rightarrow> bool" where
  "truthy (CStr s) = (s \<noteq> [])"
| "truthy (CNum n) = (n \<noteq> 0)"
| "truthy (CBool b) = b"
| "truthy CNull = False"

text \<open>The string a string cell holds; it is applied to string cells only.\<close>

fun str_of :: "cell \<Rightarrow> jsstring" where
  "str_of (CStr s) = s"
| "str_of v = []"

text \<open>\<open>trim\<close> removes white space and line terminators (the units of \<open>\s\<close>) at both ends.\<close>

definition js_trim :: "jsstring \<Rightarrow> jsstring" where
  "js_trim s = rev (dropWhile is_space (rev (dropWhile is_space s)))"

section \<open>TransformationPage.tsx: column type detection\<close>

datatype ColumnType =
  T_auto | T_text | T_number | T_date | T_zipcode | T_phone | T_email | T_currency | T_ssn

definition separator :: regex where
  "separator = Chr (Pos (space_ranges @ [unit_of CHR ''.'', unit_of CHR ''-'']))"

definition date_separator :: regex where
  "date_separator = Chr (Pos [unit_of CHR ''-'', unit_of CHR ''/'', unit_of CHR ''.''])"

definition white :: regex where
  "white = Chr (Pos space_ranges)"

text \<open>The pound, dollar, euro and yen signs.\<close>

definition currency_symbol :: regex where
  "currency_symbol = Chr (Pos [(163, 163), unit_of CHR ''$'', (8364, 8364), (165, 165)])"

text \<open>\<open>/^\d{5}(-\d{4})?$/\<close>\<close>

definition zipPattern :: regex where
  "zipPattern = seqs [rep 5 digit, opt (seqs [lit CHR ''-'', rep 4 digit])]"

text \<open>\<open>/^(\+\d{1,3}[\s.-]?)?\(?\d{3}\)?[\s.-]?\d{3}[\s.-]?\d{4}$/\<close>\<close>

definition phonePattern :: regex where
  "phonePattern =
     seqs [opt (seqs [lit CHR ''+'', rep_range 1 3 digit, opt separator]),
           opt (lit CHR ''(''), rep 3 digit, opt (lit CHR '')''), opt separator,
           rep 3 digit, opt separator, rep 4 digit]"

text \<open>\<open>/^[a-zA-Z0-9._%+-]+@[a-zA-Z0-9.-]+\.[a-zA-Z]{2,}$/\<close>\<close>

definition emailPattern :: regex where
  "emailPattern =
     seqs [plus (Chr (Pos [units_from CHR ''a'' CHR ''z'', units_from CHR ''A'' CHR ''Z'',
                           units_from CHR ''0'' CHR ''9'', unit_of CHR ''.'', unit_of CHR ''_'',
                           unit_of CHR ''%'', unit_of CHR ''+'', unit_of CHR ''-''])),
           lit CHR ''@'',
           plus (Chr (Pos [units_from CHR ''a'' CHR ''z'', units_from CHR ''A'' CHR ''Z'',
                           units_from CHR ''0'' CHR ''9'', unit_of CHR ''.'', unit_of CHR ''-''])),
           lit CHR ''.'',
           rep_min 2 (Chr (Pos [units_from CHR ''a'' CHR ''z'', units_from CHR ''A'' CHR ''Z'']))]"

text \<open>\<open>/^\s*[C]?\s*[\d,.]+\s*$/\<close>, with \<open>C\<close> the four currency signs.\<close>

definition currencyPattern :: regex where
  "currencyPattern =
     seqs [Star white, opt currency_symbol, Star white,
           plus (Chr (Pos (digit_ranges @ [unit_of CHR '','', unit_of CHR ''.'']))),
           Star white]"

text \<open>\<open>/^\d{3}-\d{2}-\d{4}$/\<close>\<close>

definition ssnPattern :: regex where
  "ssnPattern = seqs [rep 3 digit, lit CHR ''-'', rep 2 digit, lit CHR ''-'', rep 4 digit]"

text \<open>
  \<open>/^(\d{1,4}[-/\.]\d{1,2}[-/\.]\d{1,4})|(\d{1,2}[-/\.]\d{1,2}[-/\.]\d{2,4})$/\<close>:
  the alternation binds weaker than the anchors, so the first alternative is anchored at
  the start only and the second at the end only.
\<close>

definition datePattern :: regex where
  "datePattern =
     Alt (starts_with (seqs [rep_range 1 4 digit, date_separator, rep_range 1 2 digit,
                             date_separator, rep_range 1 4 digit]))
         (ends_with (seqs [rep_range 1 2 digit, date_separator, rep_range 1 2 digit,
                           date_separator, rep_range 2 4 digit]))"

text \<open>\<open>/^-?\d+(\.\d+)?$/\<close>\<close>

definition numberPattern :: regex where
  "numberPattern =
     seqs [opt (lit CHR ''-''), plus digit, opt (seqs [lit CHR ''.'', plus digit])]"

text \<open>The seven counters of \<open>detectColumnType\<close> and the body of its \<open>forEach\<close>.\<close>

record matchCounts =
  zipMatches :: nat
  phoneMatches :: nat
  emailMatches :: nat
  currencyMatches :: nat
  ssnMatches :: nat
  dateMatches :: nat
  numberMatches :: nat

definition noMatches :: matchCounts where
  "noMatches = \<lparr>zipMatches = 0, phoneMatches = 0, emailMatches = 0, currencyMatches = 0,
     ssnMatches = 0, dateMatches = 0, numberMatches = 0\<rparr>"

definition bump :: "bool \<Rightarrow> nat \<Rightarrow> nat" where
  "bump hit n = (if hit then n + 1 else n)"

definition countValue :: "cell \<Rightarrow> matchCounts \<Rightarrow> matchCounts" where
  "countValue v k =
     \<lparr>zipMatches = bump (matches zipPattern (str_of v)) (zipMatches k),
      phoneMatches = bump (matches phonePattern (str_of v)) (phoneMatches k),
      emailMatches = bump (matches emailPattern (str_of v)) (emailMatches k),
      currencyMatches = bump (matches currencyPattern (str_of v)) (currencyMatches k),
      ssnMatches = bump (matches ssnPattern (str_of v)) (ssnMatches k),
      dateMatches = bump (matches datePattern (str_of v)) (dateMatches k),
      numberMatches = bump (matches numberPattern (str_of v)) (numberMatches k)\<rparr>"

text \<open>
  The percentages are computed by the program in double precision; here they are exact
  rationals. For a sample of at most 100 values the two agree on which side of 60 a
  percentage lies.
\<close>

definition percent :: "nat \<Rightarrow> nat \<Rightarrow> rat" where
  "percent hits n = (of_nat hits / of_nat n) * 100"

definition sampleValues :: "cell list \<Rightarrow> cell list" where
  "sampleValues columnValues =
     take 100 (filter (\<lambda>v. truthy v \<and> typeof v = TString \<and> js_trim (str_of v) \<noteq> [])
                 columnValues)"

definition detectColumnType :: "cell list \<Rightarrow> ColumnType" where
  "detectColumnType columnValues =
     (if length columnValues = 0 then T_auto
      else
        let sample = sampleValues columnValues in
        if length sample = 0 then T_auto
        else
          let k = fold countValue sample noMatches;
              totalCount = length sample;
              threshold = 60
          in
            if percent (emailMatches k) totalCount \<ge> threshold then T_email
            else if percent (zipMatches k) totalCount \<ge> threshold then T_zipcode
            else if percent (phoneMatches k) totalCount \<ge> threshold then T_phone
            else if percent (ssnMatches k) totalCount \<ge> threshold then T_ssn
            else if percent (currencyMatches k) totalCount \<ge> threshold then T_currency
            else if percent (dateMatches k) totalCount \<ge> threshold then T_date
            else if percent (numberMatches k) totalCount \<ge> threshold then T_number
            else T_text)"

text \<open>
  The inference as the specification words it: the sample is the first 100 values that
  are non-empty strings (strings that are not blank, which the source's own comment calls
  the non-empty values); the types are tried in the priority order, and a type is taken
  when at least 60 in 100 of the sample match its pattern.
\<close>

definition nonEmptyString :: "cell \<Rightarrow> bool" where
  "nonEmptyString v = (case v of CStr s \<Rightarrow> js_trim s \<noteq> [] | _ \<Rightarrow> False)"

definition clears_threshold :: "regex \<Rightarrow> cell list \<Rightarrow> bool" where
  "clears_threshold p sample =
     (60 * length sample \<le> 100 * length (filter (\<lambda>v. matches p (str_of v)) sample))"

definition typePriority :: "(ColumnType \<times> regex) list" where
  "typePriority =
     [(T_email, emailPattern), (T_zipcode, zipPattern), (T_phone, phonePattern),
      (T_ssn, ssnPattern), (T_currency, currencyPattern), (T_date, datePattern),
      (T_number, numberPattern)]"

definition inferType_spec :: "cell list \<Rightarrow> ColumnType" where
  "inferType_spec values =
     (let sample = take 100 (filter nonEmptyString values) in
      if sample = [] then T_auto
      else case find (\<lambda>(t, p). clears_threshold p sample) typePriority of
             Some (t, p) \<Rightarrow> t
           | None \<Rightarrow> T_text)"

section \<open>Numbers and the built-ins of the JavaScript runtime\<close>

text \<open>
  A JavaScript number: not-a-number, the two infinities, or a finite value (a rational
  here; the two zeros are not told apart).
\<close>

datatype jsnum = NaN | NegInf | Fin rat | PosInf

text \<open>
  The built-ins whose results are fixed by the runtime and not by this program are
  parameters of the model: rendering a number as a string, lower-casing a string, reading
  a string as a number, parsing a date string (to a time value, or \<open>NaN\<close>), and the text
  that \<open>String\<close> gives for the function that \<open>Object.prototype\<close> holds under a given name.
\<close>

record js_runtime =
  numberToString :: "rat \<Rightarrow> jsstring"
  toLowerCase :: "jsstring \<Rightarrow> jsstring"
  stringToNumber :: "jsstring \<Rightarrow> jsnum"
  dateParse :: "jsstring \<Rightarrow> jsnum"
  functionToString :: "jsstring \<Rightarrow> jsstring"

text \<open>\<open>String(v)\<close> of a cell.\<close>

fun js_String :: "js_runtime \<Rightarrow> cell \<Rightarrow> jsstring" where
  "js_String rt (CStr s) = s"
| "js_String rt (CNum n) = numberToString rt n"
| "js_String rt (CBool b) = (if b then js ''true'' else js ''false'')"
| "js_String rt CNull = js ''null''"

text \<open>The decimal digits of a natural number, as a template literal renders an index.\<close>

function decimal :: "nat \<Rightarrow> jsstring" where
  "decimal n = (if n < 10 then [48 + n] else decimal (n div 10) @ [48 + n mod 10])"
  by pat_completeness auto
termination
  by (relation "measure id") auto

declare decimal.simps [simp del]

section \<open>Row objects\<close>

text \<open>
  A row object is a plain JavaScript object, created as \<open>{}\<close>. It has its own
  properties, one entry for each key in the order in which the keys were first assigned,
  and a prototype, which is \<open>Object.prototype\<close> unless it has been cleared.
  (JavaScript enumerates keys that are array indices before the others; no statement
  below depends on the order of the keys within a row.)
\<close>

record rowobj =
  entries :: "(jsstring \<times> cell) list"
  inherits :: bool

definition emptyObject :: rowobj where
  "emptyObject = \<lparr>entries = [], inherits = True\<rparr>"

definition obj_keys :: "rowobj \<Rightarrow> jsstring list" where
  "obj_keys obj = map fst (entries obj)"

text \<open>Assigning to an own property: the value is replaced in place, or the key is added.\<close>

fun set_entry :: "jsstring \<Rightarrow> cell \<Rightarrow> (jsstring \<times> cell) list \<Rightarrow> (jsstring \<times> cell) list" where
  "set_entry k v [] = [(k, v)]"
| "set_entry k v ((k', v') # rest) =
     (if k = k' then (k, v) # rest else (k', v') # set_entry k v rest)"

text \<open>
  The names that a plain object inherits from \<open>Object.prototype\<close>. All of them are
  writable data properties holding functions, but \<open>__proto__\<close>, which is an accessor:
  read, it gives the prototype; assigned a primitive value, it does nothing; assigned
  \<open>null\<close>, it clears the prototype.
\<close>

definition protoKey :: jsstring where
  "protoKey = js ''__proto__''"

definition objectPrototypeNames :: "jsstring list" where
  "objectPrototypeNames =
     [js ''constructor'', js ''__defineGetter__'', js ''__defineSetter__'',
      js ''hasOwnProperty'', js ''__lookupGetter__'', js ''__lookupSetter__'',
      js ''isPrototypeOf'', js ''propertyIsEnumerable'', js ''toString'', js ''valueOf'',
      protoKey, js ''toLocaleString'']"

text \<open>
  \<open>obj[k] = v\<close>. An own property is assigned to. Otherwise the assignment of
  \<open>__proto__\<close> on an object that still inherits reaches the accessor and creates no
  property; every other assignment creates an own property.
\<close>

definition obj_set :: "jsstring \<Rightarrow> cell \<Rightarrow> rowobj \<Rightarrow> rowobj" where
  "obj_set k v obj =
     (if k = protoKey \<and> k \<notin> set (obj_keys obj) \<and> inherits obj then
        (if v = CNull then obj\<lparr>inherits := False\<rparr> else obj)
      else obj\<lparr>entries := set_entry k v (entries obj)\<rparr>)"

text \<open>
  What \<open>obj[k]\<close> reads: the value of an own property, a member of \<open>Object.prototype\<close>
  when the object inherits and has no such own property, and otherwise \<open>undefined\<close>
  (\<open>None\<close>).
\<close>

datatype jsvalue = Prim cell | Member jsstring

definition obj_get :: "rowobj \<Rightarrow> jsstring \<Rightarrow> jsvalue option" where
  "obj_get obj k =
     (case map_of (entries obj) k of
        Some v \<Rightarrow> Some (Prim v)
      | None \<Rightarrow> if inherits obj \<and> k \<in> set objectPrototypeNames then Some (Member k) else None)"

text \<open>
  \<open>String(m)\<close> of an inherited member: the prototype object itself for \<open>__proto__\<close>,
  and a built-in function otherwise.
\<close>

definition member_String :: "js_runtime \<Rightarrow> jsstring \<Rightarrow> jsstring" where
  "member_String rt name =
     (if name = protoKey then js ''[object Object]'' else functionToString rt name)"

section \<open>ExcelTransformer.ts: building the table from a sheet\<close>

text \<open>The two load options that \<open>processSheetWithCustomHeaders\<close> reads.\<close>

record ExcelLoadOptions =
  headerRow :: "nat option"
  skipRows :: "nat option"

datatype load_error = HeaderRowOutOfBounds nat

text \<open>\<open>options.headerRow !== undefined ? options.headerRow : options.skipRows || 0\<close>\<close>

definition headerRowIndexOf :: "ExcelLoadOptions \<Rightarrow> nat" where
  "headerRowIndexOf options =
     (case headerRow options of
        Some h \<Rightarrow> h
      | None \<Rightarrow> (case skipRows options of Some k \<Rightarrow> (if k \<noteq> 0 then k else 0) | None \<Rightarrow> 0))"

text \<open>The callback of the \<open>map\<close> over the header row.\<close>

definition headerKey :: "js_runtime \<Rightarrow> cell \<Rightarrow> nat \<Rightarrow> jsstring" where
  "headerKey rt header index =
     (if truthy header then js_trim (js_String rt header)
      else js ''Column'' @ decimal (index + 1))"

definition extractHeaders :: "js_runtime \<Rightarrow> cell list \<Rightarrow> jsstring list" where
  "extractHeaders rt cells =
     map (\<lambda>(header, index). headerKey rt header index) (zip cells [0 ..< length cells])"

text \<open>
  The inner loop over the header positions, for one data row, and the function itself.
  The function also stores its result in the transformer's \<open>data\<close> field; the model
  returns the result only.
\<close>

definition rowObject :: "jsstring list \<Rightarrow> cell list \<Rightarrow> rowobj" where
  "rowObject headers row =
     fold (\<lambda>j obj. obj_set (headers ! j) (if j < length row then row ! j else CStr []) obj)
       [0 ..< length headers] emptyObject"

definition processSheetWithCustomHeaders ::
  "js_runtime \<Rightarrow> cell list list \<Rightarrow> ExcelLoadOptions \<Rightarrow> load_error + rowobj list" where
  "processSheetWithCustomHeaders rt rawData options =
     (if length rawData = 0 then Inr []
      else
        let headerRowIndex = headerRowIndexOf options in
        if headerRowIndex \<ge> length rawData then Inl (HeaderRowOutOfBounds headerRowIndex)
        else
          let headers = extractHeaders rt (rawData ! headerRowIndex);
              dataStartRow = headerRowIndex + 1
          in Inr (map (\<lambda>i. rowObject headers (rawData ! i))
                    [dataStartRow ..< length rawData]))"

text \<open>
  A runtime for evaluating examples. It lower-cases the basic Latin letters, renders a
  natural number in decimal, reads a string of decimal digits as that number, recognises
  no date and renders an inherited function by its name and a native body (the
  constructor is the function \<open>Object\<close>). The examples use it only where the JavaScript
  built-ins give the same results.
\<close>

definition lower_unit :: "nat \<Rightarrow> nat" where
  "lower_unit c = (if 65 \<le> c \<and> c \<le> 90 then c + 32 else c)"

definition digits_value :: "jsstring \<Rightarrow> nat" where
  "digits_value s = foldl (\<lambda>acc c. 10 * acc + (c - 48)) 0 s"

definition example_runtime :: js_runtime where
  "example_runtime =
     \<lparr>numberToString = (\<lambda>n. if n = of_nat (nat \<lfloor>n\<rfloor>) then decimal (nat \<lfloor>n\<rfloor>) else js ''NaN''),
      toLowerCase = map lower_unit,
      stringToNumber =
        (\<lambda>s. if s = [] then Fin 0
             else if list_all is_digit s then Fin (of_nat (digits_value s)) else NaN),
      dateParse = (\<lambda>s. NaN),
      functionToString =
        (\<lambda>name. if name = js ''constructor'' then js ''function Object() { [native code] }''
                else js ''function '' @ name @ js ''() { [native code] }'')\<rparr>"

text \<open>The row object after the first \<open>n\<close> rounds of the inner loop.\<close>

definition rowPrefix :: "jsstring list \<Rightarrow> cell list \<Rightarrow> nat \<Rightarrow> rowobj" where
  "rowPrefix headers row n =
     fold (\<lambda>j obj. obj_set (headers ! j) (if j < length row then row ! j else CStr []) obj)
       [0 ..< n] emptyObject"

text \<open>
  Rows without a \<open>null\<close> cell: every cell is a string, a number or a boolean.
\<close>

definition sheet_cells :: "cell list list \<Rightarrow> bool" where
  "sheet_cells dataRows = list_all (list_all (\<lambda>c. c \<noteq> CNull)) dataRows"

text \<open>
  Example sheets: a data row shorter than the header row, a repeated header, an empty
  header cell, header cells that are zero and false, and a header named after the
  prototype accessor.
\<close>

definition falsy_header_sheet :: "cell list list" where
  "falsy_header_sheet =
     [[CNum 0, CBool False, CNum 7], [CStr (js ''a''), CStr (js ''b''), CStr (js ''c'')]]"

definition proto_header_sheet :: "cell list list" where
  "proto_header_sheet =
     [[CStr (js ''__proto__''), CStr (js ''a'')], [CStr (js ''x''), CStr (js ''y'')]]"

definition short_row_sheet :: "cell list list" where
  "short_row_sheet = [[CStr (js ''Name''), CStr (js ''Age'')], [CStr (js ''Alice'')]]"

definition repeated_header_sheet :: "cell list list" where
  "repeated_header_sheet =
     [[CStr (js ''A''), CStr (js ''A'')], [CStr (js ''x''), CStr (js ''y'')]]"

definition repeated_zip_sheet :: "cell list list" where
  "repeated_zip_sheet =
     [[CStr (js ''Zip''), CStr (js ''Zip'')], [CStr (js ''12345''), CStr (js ''90210'')]]"

definition blank_header_sheet :: "cell list list" where
  "blank_header_sheet =
     [[CStr (js '' Name ''), CStr []], [CStr (js ''Alice''), CStr (js ''30'')]]"

section \<open>ExcelTransformer.ts: header row detection\<close>

text \<open>
  A \<open>for\<close> loop over \<open>lo \<le> i < hi\<close> whose body either returns a result or goes on to
  the next index; \<open>None\<close> when the loop runs to its end.
\<close>

function for_first :: "nat \<Rightarrow> nat \<Rightarrow> (nat \<Rightarrow> nat option) \<Rightarrow> nat option" where
  "for_first i hi body =
     (if i < hi then (case body i of Some r \<Rightarrow> Some r | None \<Rightarrow> for_first (Suc i) hi body)
      else None)"
  by pat_completeness auto
termination
  by (relation "measure (\<lambda>(i, hi, body). hi - i)") auto

declare for_first.simps [simp del]

text \<open>The three counts taken of a row: \<open>cell !== ""\<close>, non-empty strings, numbers.\<close>

definition nonEmptyCount :: "cell list \<Rightarrow> nat" where
  "nonEmptyCount row = length (filter (\<lambda>c. c \<noteq> CStr []) row)"

definition stringCellCount :: "cell list \<Rightarrow> nat" where
  "stringCellCount row = length (filter (\<lambda>c. typeof c = TString \<and> c \<noteq> CStr []) row)"

definition numberCellCount :: "cell list \<Rightarrow> nat" where
  "numberCellCount row = length (filter (\<lambda>c. typeof c = TNumber) row)"

text \<open>
  The ratios are doubles in the program and exact rationals here; the rounding of the
  doubles does not change the outcome of any of the comparisons below.
\<close>

definition stringPercent :: "cell list \<Rightarrow> rat" where
  "stringPercent row = (of_nat (stringCellCount row) / of_nat (nonEmptyCount row)) * 100"

definition columnsWithValues :: "cell list \<Rightarrow> rat" where
  "columnsWithValues row = of_nat (nonEmptyCount row) / of_nat (max 1 (length row))"

definition stringLengthSum :: "cell list \<Rightarrow> nat" where
  "stringLengthSum row =
     foldl (\<lambda>sum len. sum + len) 0
       (map (\<lambda>s. length (str_of s)) (filter (\<lambda>c. typeof c = TString \<and> c \<noteq> CStr []) row))"

definition avgStringLength :: "cell list \<Rightarrow> rat" where
  "avgStringLength row = of_nat (stringLengthSum row) / of_nat (max 1 (stringCellCount row))"

definition isLikelyHeader :: "cell list \<Rightarrow> bool" where
  "isLikelyHeader row =
     (stringCellCount row \<ge> 3 \<and> stringPercent row > 65 \<and> columnsWithValues row > 1 / 2 \<and>
      avgStringLength row > 0 \<and> avgStringLength row < 30)"

text \<open>The check of the row below a likely header.\<close>

definition nextRowConfirms :: "cell list list \<Rightarrow> nat \<Rightarrow> bool" where
  "nextRowConfirms rawData i =
     (let nextRow = rawData ! (i + 1)
      in nonEmptyCount nextRow \<ge> nonEmptyCount (rawData ! i) \<and> numberCellCount nextRow > 0)"

text \<open>The body of the first loop of \<open>detectHeaderRow\<close>.\<close>

definition likelyHeaderAt :: "cell list list \<Rightarrow> nat \<Rightarrow> nat option" where
  "likelyHeaderAt rawData i =
     (let row = rawData ! i in
      if nonEmptyCount row < 3 then None
      else if isLikelyHeader row then
        (if i < length rawData - 1 then
           (if nextRowConfirms rawData i then Some i else Some i)
         else Some i)
      else None)"

definition detectConsistentColumnStructure :: "cell list list \<Rightarrow> nat option" where
  "detectConsistentColumnStructure data =
     (if length data < 3 then None
      else
        let nonEmptyCellsPerRow = map nonEmptyCount data in
        for_first 0 (length nonEmptyCellsPerRow - 2)
          (\<lambda>i. let currentCount = nonEmptyCellsPerRow ! i in
               if currentCount < 3 then None
               else if nonEmptyCellsPerRow ! (i + 1) = currentCount
                       \<and> nonEmptyCellsPerRow ! (i + 2) = currentCount
               then Some i else None))"

text \<open>\<open>analyzeRowTypes\<close>: the string and the number percentage of a row.\<close>

definition analyzeRowTypes :: "cell list \<Rightarrow> rat \<times> rat" where
  "analyzeRowTypes row =
     (let nonEmpty = nonEmptyCount row in
      if nonEmpty = 0 then (0, 0)
      else ((of_nat (stringCellCount row) / of_nat nonEmpty) * 100,
            (of_nat (numberCellCount row) / of_nat nonEmpty) * 100))"

definition detectHeaderByColumnTypes :: "cell list list \<Rightarrow> nat option" where
  "detectHeaderByColumnTypes data =
     (if length data < 3 then None
      else
        for_first 0 (min 10 (length data - 2))
          (\<lambda>i. if nonEmptyCount (data ! i) < 3 then None
               else
                 let currentRowTypes = analyzeRowTypes (data ! i);
                     nextRowTypes = analyzeRowTypes (data ! (i + 1));
                     afterNextRowTypes = analyzeRowTypes (data ! (i + 2))
                 in if fst currentRowTypes \<ge> 70
                       \<and> (snd nextRowTypes > snd currentRowTypes
                            \<or> snd afterNextRowTypes > snd currentRowTypes)
                    then Some i else None))"

text \<open>
  \<open>detectHeaderRow\<close>, from the point where the sheet has been read into rows. The
  \<open>catch\<close> of the source guards the reading of the file; the analysis itself reads rows
  within bounds only.
\<close>

definition detectHeaderRow :: "cell list list \<Rightarrow> nat" where
  "detectHeaderRow rawData =
     (if length rawData = 0 then 0
      else
        case for_first 0 (min 15 (length rawData)) (likelyHeaderAt rawData) of
          Some i \<Rightarrow> i
        | None \<Rightarrow>
            (case detectConsistentColumnStructure rawData of
               Some columnCountConsistencyIndex \<Rightarrow>
                 (let potentialHeaderRow = rawData ! columnCountConsistencyIndex;
                      strings = stringCellCount potentialHeaderRow;
                      nonEmpty = nonEmptyCount potentialHeaderRow
                  in
                    if (of_nat strings / of_nat nonEmpty :: rat) > 3 / 5
                    then columnCountConsistencyIndex
                    else if columnCountConsistencyIndex > 0
                            \<and> (let rowBefore = rawData ! (columnCountConsistencyIndex - 1);
                                     stringsBefore = stringCellCount rowBefore;
                                     nonEmptyBefore = nonEmptyCount rowBefore
                                 in (of_nat stringsBefore / of_nat (max 1 nonEmptyBefore) :: rat)
                                      > 3 / 5
                                    \<and> nonEmptyBefore \<ge> 3)
                    then columnCountConsistencyIndex - 1
                    else columnCountConsistencyIndex)
             | None \<Rightarrow>
                 (case detectHeaderByColumnTypes rawData of
                    Some headerByTypeIndex \<Rightarrow> headerByTypeIndex
                  | None \<Rightarrow>
                      (case for_first 0 (min 10 (length rawData))
                              (\<lambda>i. let nonEmptyCells = nonEmptyCount (rawData ! i) in
                                   if nonEmptyCells \<ge> 3
                                      \<and> (of_nat (stringCellCount (rawData ! i))
                                            / of_nat nonEmptyCells :: rat) > 3 / 5
                                   then Some i else None) of
                         Some i \<Rightarrow> i
                       | None \<Rightarrow>
                           (case for_first 0 (min 10 (length rawData))
                                   (\<lambda>i. if nonEmptyCount (rawData ! i) \<ge> 3 then Some i
                                        else None) of
                              Some i \<Rightarrow> i
                            | None \<Rightarrow> 0)))))"

text \<open>
  The qualification of a header row as the specification words it: at least three
  string cells, more than 65 in 100 of the non-empty cells are strings, more than half
  of the row's width is non-empty, and the average length of the string cells lies
  strictly between 0 and 30.
\<close>

definition qualifiesAsHeader :: "cell list \<Rightarrow> bool" where
  "qualifiesAsHeader row =
     (3 \<le> stringCellCount row
      \<and> 65 * nonEmptyCount row < 100 * stringCellCount row
      \<and> length row < 2 * nonEmptyCount row
      \<and> 0 < stringLengthSum row
      \<and> stringLengthSum row < 30 * stringCellCount row)"

definition report_sheet :: "cell list list" where
  "report_sheet =
     [[CStr (js ''Q1 Report''), CStr [], CStr [], CStr []],
      [CStr (js ''Name''), CStr (js ''Age''), CStr (js ''Email''), CStr (js ''Zip'')],
      [CStr (js ''Alice''), CNum 30, CStr (js ''a@b.com''), CStr (js ''12345'')]]"

section \<open>TransformationPage.tsx: row filters\<close>

text \<open>
  The operand of a filter, after the \<open>FilterValue\<close> type of the filter component that
  builds the filters: a string, a number, a boolean, a list of strings, a list of
  numbers, or a range with the string fields \<open>from\<close> and \<open>to\<close>.
\<close>

datatype FilterValue =
    FStr jsstring
  | FNum jsnum
  | FBool bool
  | FStrs "jsstring list"
  | FNums "jsnum list"
  | FRange jsstring jsstring

text \<open>
  The operations that \<open>applyFilters\<close> distinguishes; the operation is a string in the
  source, and \<open>Op_other\<close> stands for every other string (the \<open>default\<close> branch).
\<close>

datatype FilterOperation =
    Op_equals | Op_notEquals | Op_contains | Op_notContains | Op_startsWith | Op_endsWith
  | Op_greaterThan | Op_lessThan | Op_between | Op_in | Op_notIn | Op_isTrue | Op_isFalse
  | Op_dateRange | Op_before | Op_after | Op_other

record ColumnFilter =
  column :: jsstring
  ftype :: jsstring
  operation :: FilterOperation
  fvalue :: FilterValue

text \<open>Comparison of numbers: every comparison with \<open>NaN\<close> is false.\<close>

fun num_lt :: "jsnum \<Rightarrow> jsnum \<Rightarrow> bool" where
  "num_lt NaN b = False"
| "num_lt a NaN = False"
| "num_lt PosInf b = False"
| "num_lt a NegInf = False"
| "num_lt NegInf b = True"
| "num_lt a PosInf = True"
| "num_lt (Fin x) (Fin y) = (x < y)"

fun num_eq :: "jsnum \<Rightarrow> jsnum \<Rightarrow> bool" where
  "num_eq NaN b = False"
| "num_eq a NaN = False"
| "num_eq a b = (a = b)"

definition num_gt :: "jsnum \<Rightarrow> jsnum \<Rightarrow> bool" where
  "num_gt a b = num_lt b a"

definition num_le :: "jsnum \<Rightarrow> jsnum \<Rightarrow> bool" where
  "num_le a b = (num_lt a b \<or> num_eq a b)"

definition num_ge :: "jsnum \<Rightarrow> jsnum \<Rightarrow> bool" where
  "num_ge a b = (num_lt b a \<or> num_eq a b)"

definition bool_num :: "bool \<Rightarrow> jsnum" where
  "bool_num b = Fin (if b then 1 else 0)"

text \<open>\<open>Number(v)\<close>, \<open>String(v)\<close> and the truth value of a cell and of an operand.\<close>

fun cell_Number :: "js_runtime \<Rightarrow> cell \<Rightarrow> jsnum" where
  "cell_Number rt (CStr s) = stringToNumber rt s"
| "cell_Number rt (CNum n) = Fin n"
| "cell_Number rt (CBool b) = bool_num b"
| "cell_Number rt CNull = Fin 0"

fun num_String :: "js_runtime \<Rightarrow> jsnum \<Rightarrow> jsstring" where
  "num_String rt NaN = js ''NaN''"
| "num_String rt PosInf = js ''Infinity''"
| "num_String rt NegInf = js ''-Infinity''"
| "num_String rt (Fin x) = numberToString rt x"

fun join_comma :: "jsstring list \<Rightarrow> jsstring" where
  "join_comma [] = []"
| "join_comma [s] = s"
| "join_comma (s # rest) = s @ js '','' @ join_comma rest"

fun value_String :: "js_runtime \<Rightarrow> FilterValue \<Rightarrow> jsstring" where
  "value_String rt (FStr s) = s"
| "value_String rt (FNum n) = num_String rt n"
| "value_String rt (FBool b) = (if b then js ''true'' else js ''false'')"
| "value_String rt (FStrs xs) = join_comma xs"
| "value_String rt (FNums ns) = join_comma (map (num_String rt) ns)"
| "value_String rt (FRange a b) = js ''[object Object]''"

fun value_Number :: "js_runtime \<Rightarrow> FilterValue \<Rightarrow> jsnum" where
  "value_Number rt (FStr s) = stringToNumber rt s"
| "value_Number rt (FNum n) = n"
| "value_Number rt (FBool b) = bool_num b"
| "value_Number rt (FRange a b) = NaN"
| "value_Number rt v = stringToNumber rt (value_String rt v)"

fun value_truthy :: "FilterValue \<Rightarrow> bool" where
  "value_truthy (FStr s) = (s \<noteq> [])"
| "value_truthy (FNum n) = (n \<noteq> NaN \<and> n \<noteq> Fin 0)"
| "value_truthy (FBool b) = b"
| "value_truthy v = True"

fun isArray :: "FilterValue \<Rightarrow> bool" where
  "isArray (FStrs xs) = True"
| "isArray (FNums ns) = True"
| "isArray v = False"

text \<open>
  The elements of an array operand as strings, and the number that a comparison makes of
  the element at an index; a missing element is \<open>undefined\<close> and compares as \<open>NaN\<close>.
\<close>

fun element_Strings :: "js_runtime \<Rightarrow> FilterValue \<Rightarrow> jsstring list" where
  "element_Strings rt (FStrs xs) = xs"
| "element_Strings rt (FNums ns) = map (num_String rt) ns"
| "element_Strings rt v = []"

fun element_Number :: "js_runtime \<Rightarrow> FilterValue \<Rightarrow> nat \<Rightarrow> jsnum" where
  "element_Number rt (FStrs xs) i = (if i < length xs then stringToNumber rt (xs ! i) else NaN)"
| "element_Number rt (FNums ns) i = (if i < length ns then ns ! i else NaN)"
| "element_Number rt v i = NaN"

text \<open>
  Loose equality \<open>cell == value\<close>: equal types compare directly; otherwise booleans become
  numbers, arrays and objects become their strings, and a string against a number is
  read as a number.
\<close>

fun loose_eq :: "js_runtime \<Rightarrow> cell \<Rightarrow> FilterValue \<Rightarrow> bool" where
  "loose_eq rt (CStr s) (FStr t) = (s = t)"
| "loose_eq rt (CStr s) (FNum n) = num_eq (stringToNumber rt s) n"
| "loose_eq rt (CStr s) (FBool b) = num_eq (stringToNumber rt s) (bool_num b)"
| "loose_eq rt (CStr s) v = (s = value_String rt v)"
| "loose_eq rt (CNum x) (FNum n) = num_eq (Fin x) n"
| "loose_eq rt (CNum x) (FBool b) = num_eq (Fin x) (bool_num b)"
| "loose_eq rt (CNum x) v = num_eq (Fin x) (stringToNumber rt (value_String rt v))"
| "loose_eq rt (CBool c) (FBool b) = (c = b)"
| "loose_eq rt (CBool c) (FNum n) = num_eq (bool_num c) n"
| "loose_eq rt (CBool c) v = num_eq (bool_num c) (stringToNumber rt (value_String rt v))"
| "loose_eq rt CNull v = False"

text \<open>
  The time value of \<open>new Date(v)\<close>: a string is parsed; a number is clipped to the range
  of time values and cut to an integer.
\<close>

definition timeClip :: "jsnum \<Rightarrow> jsnum" where
  "timeClip n =
     (case n of
        Fin x \<Rightarrow> if \<bar>x\<bar> > 8640000000000000 then NaN
                 else Fin (of_int (if x \<ge> 0 then \<lfloor>x\<rfloor> else \<lceil>x\<rceil>))
      | _ \<Rightarrow> NaN)"

fun cell_Date :: "js_runtime \<Rightarrow> cell \<Rightarrow> jsnum" where
  "cell_Date rt (CStr s) = dateParse rt s"
| "cell_Date rt v = timeClip (cell_Number rt v)"

fun value_Date :: "js_runtime \<Rightarrow> FilterValue \<Rightarrow> jsnum" where
  "value_Date rt (FNum n) = timeClip n"
| "value_Date rt (FBool b) = timeClip (bool_num b)"
| "value_Date rt v = dateParse rt (value_String rt v)"

text \<open>\<open>includes\<close>, \<open>startsWith\<close> and \<open>endsWith\<close> of strings.\<close>

fun starts_at :: "jsstring \<Rightarrow> jsstring \<Rightarrow> bool" where
  "starts_at [] s = True"
| "starts_at (p # ps) [] = False"
| "starts_at (p # ps) (c # cs) = (p = c \<and> starts_at ps cs)"

fun js_includes :: "jsstring \<Rightarrow> jsstring \<Rightarrow> bool" where
  "js_includes [] p = (p = [])"
| "js_includes (c # cs) p = (starts_at p (c # cs) \<or> js_includes cs p)"

definition startsWith :: "jsstring \<Rightarrow> jsstring \<Rightarrow> bool" where
  "startsWith s p = starts_at p s"

definition endsWith :: "jsstring \<Rightarrow> jsstring \<Rightarrow> bool" where
  "endsWith s p = starts_at (rev p) (rev s)"

text \<open>\<open>xs.every(p)\<close> and \<open>xs.some(p)\<close>, which stop at the first deciding element.\<close>

fun every :: "('a \<Rightarrow> bool) \<Rightarrow> 'a list \<Rightarrow> bool" where
  "every p [] = True"
| "every p (x # xs) = (if p x then every p xs else False)"

fun some :: "('a \<Rightarrow> bool) \<Rightarrow> 'a list \<Rightarrow> bool" where
  "some p [] = False"
| "some p (x # xs) = (if p x then True else some p xs)"

text \<open>
  The coercions of a value read from a row. An inherited member is an object: it is
  true as a condition, and \<open>String\<close>, \<open>Number\<close>, \<open>new Date\<close> and the comparison with a
  primitive operand go through its string; it is equal to no array or range operand,
  which is another object.
\<close>

fun prop_String :: "js_runtime \<Rightarrow> jsvalue \<Rightarrow> jsstring" where
  "prop_String rt (Prim c) = js_String rt c"
| "prop_String rt (Member name) = member_String rt name"

fun prop_Number :: "js_runtime \<Rightarrow> jsvalue \<Rightarrow> jsnum" where
  "prop_Number rt (Prim c) = cell_Number rt c"
| "prop_Number rt (Member name) = stringToNumber rt (member_String rt name)"

fun prop_truthy :: "jsvalue \<Rightarrow> bool" where
  "prop_truthy (Prim c) = truthy c"
| "prop_truthy (Member name) = True"

fun prop_Date :: "js_runtime \<Rightarrow> jsvalue \<Rightarrow> jsnum" where
  "prop_Date rt (Prim c) = cell_Date rt c"
| "prop_Date rt (Member name) = dateParse rt (member_String rt name)"

fun prop_loose_eq :: "js_runtime \<Rightarrow> jsvalue \<Rightarrow> FilterValue \<Rightarrow> bool" where
  "prop_loose_eq rt (Prim c) v = loose_eq rt c v"
| "prop_loose_eq rt (Member name) (FStr t) = loose_eq rt (CStr (member_String rt name)) (FStr t)"
| "prop_loose_eq rt (Member name) (FNum n) = loose_eq rt (CStr (member_String rt name)) (FNum n)"
| "prop_loose_eq rt (Member name) (FBool b) =
     loose_eq rt (CStr (member_String rt name)) (FBool b)"
| "prop_loose_eq rt (Member name) v = False"

text \<open>
  The callback of \<open>filters.every\<close>: one filter on one row. The first two cases are the
  test \<open>cellValue === undefined || cellValue === null\<close>.
\<close>

definition filterAdmits :: "js_runtime \<Rightarrow> rowobj \<Rightarrow> ColumnFilter \<Rightarrow> bool" where
  "filterAdmits rt row f =
     (case obj_get row (column f) of
        None \<Rightarrow> False
      | Some (Prim CNull) \<Rightarrow> False
      | Some cellValue \<Rightarrow>
          (let v = fvalue f in
           case operation f of
             Op_equals \<Rightarrow> prop_loose_eq rt cellValue v
           | Op_notEquals \<Rightarrow> \<not> prop_loose_eq rt cellValue v
           | Op_contains \<Rightarrow>
               js_includes (toLowerCase rt (prop_String rt cellValue))
                 (toLowerCase rt (value_String rt v))
           | Op_notContains \<Rightarrow>
               \<not> js_includes (toLowerCase rt (prop_String rt cellValue))
                   (toLowerCase rt (value_String rt v))
           | Op_startsWith \<Rightarrow>
               startsWith (toLowerCase rt (prop_String rt cellValue))
                 (toLowerCase rt (value_String rt v))
           | Op_endsWith \<Rightarrow>
               endsWith (toLowerCase rt (prop_String rt cellValue))
                 (toLowerCase rt (value_String rt v))
           | Op_greaterThan \<Rightarrow> num_gt (prop_Number rt cellValue) (value_Number rt v)
           | Op_lessThan \<Rightarrow> num_lt (prop_Number rt cellValue) (value_Number rt v)
           | Op_between \<Rightarrow>
               isArray v \<and> num_ge (prop_Number rt cellValue) (element_Number rt v 0)
                 \<and> num_le (prop_Number rt cellValue) (element_Number rt v 1)
           | Op_in \<Rightarrow>
               isArray v
                 \<and> some (\<lambda>e. toLowerCase rt e = toLowerCase rt (prop_String rt cellValue))
                     (element_Strings rt v)
           | Op_notIn \<Rightarrow>
               isArray v
                 \<and> \<not> some (\<lambda>e. toLowerCase rt e = toLowerCase rt (prop_String rt cellValue))
                       (element_Strings rt v)
           | Op_isTrue \<Rightarrow> prop_truthy cellValue = True
           | Op_isFalse \<Rightarrow> prop_truthy cellValue = False
           | Op_dateRange \<Rightarrow>
               (case v of
                  FRange from to \<Rightarrow>
                    if from = [] \<or> to = [] then True
                    else
                      let dateValue = prop_Date rt cellValue;
                          fromDate = dateParse rt from;
                          toDate = dateParse rt to
                      in num_ge dateValue fromDate \<and> num_le dateValue toDate
                | _ \<Rightarrow> True)
           | Op_before \<Rightarrow>
               if \<not> value_truthy v then True
               else num_lt (prop_Date rt cellValue) (value_Date rt v)
           | Op_after \<Rightarrow>
               if \<not> value_truthy v then True
               else num_gt (prop_Date rt cellValue) (value_Date rt v)
           | Op_other \<Rightarrow> True))"

text \<open>\<open>applyFilters\<close>: from the sanitized rows and the filters to the filtered rows.\<close>

definition applyFilters :: "js_runtime \<Rightarrow> rowobj list \<Rightarrow> ColumnFilter list \<Rightarrow> rowobj list" where
  "applyFilters rt sanitizedData filters =
     (if length sanitizedData = 0 then []
      else if length filters = 0 then sanitizedData
      else filter (\<lambda>row. every (\<lambda>f. filterAdmits rt row f) filters) sanitizedData)"

text \<open>
  The bounds of a range operand. For a date range they are its fields \<open>from\<close> and \<open>to\<close>;
  a bound is absent when the field is the empty string or the operand has no such field.
  For a between filter they are the first two elements of an array, so the operand has
  both when it is an array of at least two elements.
\<close>

fun dateRange_bound_absent :: "FilterValue \<Rightarrow> bool" where
  "dateRange_bound_absent (FRange from to) = (from = [] \<or> to = [])"
| "dateRange_bound_absent v = True"

fun operand_length :: "FilterValue \<Rightarrow> nat" where
  "operand_length (FStrs xs) = length xs"
| "operand_length (FNums ns) = length ns"
| "operand_length v = 0"

definition age_row :: rowobj where
  "age_row =
     \<lparr>entries = [(js ''age'', CNum 7), (js ''joined'', CStr (js ''2020-01-02''))],
      inherits = True\<rparr>"

definition open_between :: ColumnFilter where
  "open_between =
     \<lparr>column = js ''age'', ftype = js ''number'', operation = Op_between,
      fvalue = FNums [Fin 5]\<rparr>"

definition range_between :: ColumnFilter where
  "range_between =
     \<lparr>column = js ''age'', ftype = js ''number'', operation = Op_between,
      fvalue = FRange (js ''1'') (js ''9'')\<rparr>"

definition blank_between :: ColumnFilter where
  "blank_between =
     \<lparr>column = js ''age'', ftype = js ''number'', operation = Op_between,
      fvalue = FStrs [[], js ''10'']\<rparr>"

definition open_dateRange :: ColumnFilter where
  "open_dateRange =
     \<lparr>column = js ''joined'', ftype = js ''date'', operation = Op_dateRange,
      fvalue = FRange (js ''2020-01-01'') []\<rparr>"

definition missing_column :: ColumnFilter where
  "missing_column =
     \<lparr>column = js ''zip'', ftype = js ''string'', operation = Op_dateRange,
      fvalue = FRange [] []\<rparr>"

definition inherited_column :: ColumnFilter where
  "inherited_column =
     \<lparr>column = js ''constructor'', ftype = js ''boolean'', operation = Op_isTrue,
      fvalue = FBool True\<rparr>"

section \<open>DataPreview.tsx: loading the stored presets\<close>

text \<open>A JSON value, as \<open>JSON.parse\<close> returns it.\<close>

datatype json =
    JNull
  | JBool bool
  | JNum rat
  | JStr jsstring
  | JArr "json list"
  | JObj "(jsstring \<times> json) list"

datatype parse_error = SyntaxError

text \<open>
  \<open>JSON.parse\<close> and \<open>JSON.stringify\<close> belong to the runtime and are parameters; parsing
  either returns a value or throws.
\<close>

record json_codec =
  parse :: "jsstring \<Rightarrow> parse_error + json"
  stringify :: "json \<Rightarrow> jsstring"

text \<open>
  What the effect reads and writes: the \<open>presets\<close> state of the component, the item
  \<open>transformationPresets\<close> of the local storage (\<open>None\<close> when there is no such item), and
  the messages written with \<open>console.error\<close>.
\<close>

record preset_state =
  presets :: json
  storedPresets :: "jsstring option"
  consoleErrors :: "jsstring list"

text \<open>
  The two sample presets. Each reads the clock for its own \<open>dateCreated\<close>: \<open>now1\<close> and \<open>now2\<close>
  are the \<open>toISOString\<close> of the two dates, in the order of the two calls.
\<close>

definition samplePresets :: "jsstring \<Rightarrow> jsstring \<Rightarrow> json" where
  "samplePresets now1 now2 =
     JArr
      [JObj [(js ''id'', JStr (js ''default-1'')),
             (js ''name'', JStr (js ''Standard Format'')),
             (js ''description'', JStr (js ''Basic data sanitization for insurance forms'')),
             (js ''sanitizationOptions'',
                JObj [(js ''removeSpecialChars'', JBool True),
                      (js ''replaceWithSpace'', JBool True),
                      (js ''sanitizeZipCodes'', JBool True),
                      (js ''countryFormat'', JStr (js ''US''))]),
             (js ''dateCreated'', JStr now1)],
       JObj [(js ''id'', JStr (js ''default-2'')),
             (js ''name'', JStr (js ''Policy Report Format'')),
             (js ''description'', JStr (js ''Format and standardize policy data'')),
             (js ''sanitizationOptions'',
                JObj [(js ''removeSpecialChars'', JBool True),
                      (js ''formatPolicyNumbers'', JBool True),
                      (js ''autoDetectPolicyFormat'', JBool True),
                      (js ''formatSSNs'', JBool True),
                      (js ''ssnFormat'', JStr (js ''XXX-XX-****''))]),
             (js ''dateCreated'', JStr now2)]]"

text \<open>The branch for a first run: the sample presets are shown and stored.\<close>

definition seedPresets ::
  "json_codec \<Rightarrow> jsstring \<Rightarrow> jsstring \<Rightarrow> preset_state \<Rightarrow> preset_state" where
  "seedPresets codec now1 now2 st =
     st\<lparr>presets := samplePresets now1 now2,
        storedPresets := Some (stringify codec (samplePresets now1 now2))\<rparr>"

text \<open>
  The effect that loads the presets when the preset manager is mounted. The stored item
  counts as absent when there is none or when it is the empty string.
\<close>

definition loadPresets ::
  "json_codec \<Rightarrow> jsstring \<Rightarrow> jsstring \<Rightarrow> preset_state \<Rightarrow> preset_state" where
  "loadPresets codec now1 now2 st =
     (case storedPresets st of
        None \<Rightarrow> seedPresets codec now1 now2 st
      | Some loadedPresets \<Rightarrow>
          if loadedPresets = [] then seedPresets codec now1 now2 st
          else
            (case parse codec loadedPresets of
               Inr parsed \<Rightarrow> st\<lparr>presets := parsed\<rparr>
             | Inl error \<Rightarrow>
                 st\<lparr>presets := JArr [],
                    consoleErrors := consoleErrors st @ [js ''Error loading presets:'']\<rparr>))"

text \<open>
  A stored preset is well formed when it has the required fields of the
  \<open>TransformationPreset\<close> interface with their types.
\<close>

fun isJStr :: "json \<Rightarrow> bool" where
  "isJStr (JStr s) = True"
| "isJStr v = False"

fun isJObj :: "json \<Rightarrow> bool" where
  "isJObj (JObj members) = True"
| "isJObj v = False"

definition has_field :: "(json \<Rightarrow> bool) \<Rightarrow> jsstring \<Rightarrow> (jsstring \<times> json) list \<Rightarrow> bool" where
  "has_field kind name members =
     (case map_of members name of Some v \<Rightarrow> kind v | None \<Rightarrow> False)"

fun wellFormedPreset :: "json \<Rightarrow> bool" where
  "wellFormedPreset (JObj members) =
     (has_field isJStr (js ''id'') members \<and> has_field isJStr (js ''name'') members
      \<and> has_field isJObj (js ''sanitizationOptions'') members
      \<and> has_field isJStr (js ''dateCreated'') members)"
| "wellFormedPreset v = False"

text \<open>
  A codec for the examples: it reads the text \<open>[null]\<close> as the list holding \<open>null\<close> and
  refuses the text \<open>{broken\<close>, as \<open>JSON.parse\<close> does; no example gives it another text.
\<close>

definition example_codec :: json_codec where
  "example_codec =
     \<lparr>parse = (\<lambda>s. if s = js ''[null]'' then Inr (JArr [JNull]) else Inl SyntaxError),
      stringify = (\<lambda>v. [])\<rparr>"

definition null_preset_store :: preset_state where
  "null_preset_store =
     \<lparr>presets = JArr [], storedPresets = Some (js ''[null]''), consoleErrors = []\<rparr>"

definition corrupt_preset_store :: preset_state where
  "corrupt_preset_store =
     \<lparr>presets = JArr [], storedPresets = Some (js ''{broken''), consoleErrors = []\<rparr>"

section \<open>TransformationPage.tsx: sanitizing the table\<close>

text \<open>
  \<open>s.slice(start, end)\<close>: a negative position counts from the end; \<open>s.slice(start)\<close> runs
  to the end.
\<close>

definition slice_pos :: "nat \<Rightarrow> int \<Rightarrow> nat" where
  "slice_pos len i = (if i < 0 then nat (max (int len + i) 0) else min (nat i) len)"

definition js_slice :: "jsstring \<Rightarrow> int \<Rightarrow> int \<Rightarrow> jsstring" where
  "js_slice s start end =
     (let a = slice_pos (length s) start; b = slice_pos (length s) end
      in take (b - a) (drop a s))"

definition js_slice_from :: "jsstring \<Rightarrow> int \<Rightarrow> jsstring" where
  "js_slice_from s start = drop (slice_pos (length s) start) s"

text \<open>\<open>s.replace(/\s+/g, " ")\<close>: every run of white space becomes one space.\<close>

function collapse_spaces :: "jsstring \<Rightarrow> jsstring" where
  "collapse_spaces [] = []"
| "collapse_spaces (c # cs) =
     (if is_space c then 32 # collapse_spaces (dropWhile is_space cs)
      else c # collapse_spaces cs)"
  by pat_completeness auto
termination
  by (relation "measure length") (auto simp: length_dropWhile_le less_Suc_eq_le)

text \<open>The formatters of the page.\<close>

definition formatPhoneNumber :: "jsstring \<Rightarrow> jsstring" where
  "formatPhoneNumber v =
     (let digitsOnly = replace_class (Neg digit_ranges) [] v in
      if length digitsOnly = 10 then
        js_slice digitsOnly 0 3 @ js ''-'' @ js_slice digitsOnly 3 6 @ js ''-''
          @ js_slice_from digitsOnly 6
      else if length digitsOnly = 11 \<and> startsWith digitsOnly (js ''1'') then
        js_slice digitsOnly 1 4 @ js ''-'' @ js_slice digitsOnly 4 7 @ js ''-''
          @ js_slice_from digitsOnly 7
      else if length digitsOnly \<ge> 7 then
        (let localNumber = js_slice_from digitsOnly (- 7);
             areaCode = js_slice digitsOnly (- 10) (- 7);
             countryCode = js_slice digitsOnly 0 (- 10)
         in if areaCode \<noteq> [] then
              (if countryCode \<noteq> [] then
                 countryCode @ js ''-'' @ areaCode @ js ''-'' @ js_slice localNumber 0 3
                   @ js ''-'' @ js_slice_from localNumber 3
               else
                 areaCode @ js ''-'' @ js_slice localNumber 0 3 @ js ''-''
                   @ js_slice_from localNumber 3)
            else js_slice localNumber 0 3 @ js ''-'' @ js_slice_from localNumber 3)
      else digitsOnly)"

text \<open>\<open>formatZipCode\<close> of the page (the sanitizer class has a method of the same name).\<close>

definition page_formatZipCode :: "jsstring \<Rightarrow> bool \<Rightarrow> jsstring" where
  "page_formatZipCode v truncateIt =
     (let digitsOnly = replace_class (Neg digit_ranges) [] v in
      if truncateIt \<or> length digitsOnly \<le> 5 then padEnd (js_slice digitsOnly 0 5) 5 (js ''0'')
      else if length digitsOnly \<le> 9 then
        js_slice digitsOnly 0 5 @ js ''-'' @ js_slice_from digitsOnly 5
      else js_slice digitsOnly 0 5 @ js ''-'' @ js_slice digitsOnly 5 9)"

definition formatEmailAddress :: "js_runtime \<Rightarrow> jsstring \<Rightarrow> jsstring" where
  "formatEmailAddress rt v = toLowerCase rt (js_trim v)"

text \<open>\<open>/^[C]/\<close>, with \<open>C\<close> the four currency signs.\<close>

definition formatCurrency :: "jsstring \<Rightarrow> jsstring" where
  "formatCurrency v =
     (if \<not> matches (starts_with currency_symbol) v then js ''$'' @ v else v)"

text \<open>\<open>formatSSN\<close> of the page.\<close>

definition page_formatSSN :: "jsstring \<Rightarrow> jsstring" where
  "page_formatSSN v =
     (let digitsOnly = replace_class (Neg digit_ranges) [] v in
      if length digitsOnly \<le> 3 then digitsOnly
      else if length digitsOnly \<le> 5 then
        js_slice digitsOnly 0 3 @ js ''-'' @ js_slice_from digitsOnly 3
      else
        js_slice digitsOnly 0 3 @ js ''-'' @ js_slice digitsOnly 3 5 @ js ''-''
          @ js_slice digitsOnly 5 9)"

record SanitizationOptions =
  removeSpecialChars :: bool
  replaceWithSpace :: bool
  sanitizeZipCodes :: bool

text \<open>The settings of a column; the two optional fields may be undefined.\<close>

record ColumnSanitizationSettings =
  enableSanitization :: bool
  preserveCharacters :: "jsstring option"
  columnType :: "ColumnType option"

type_synonym column_settings = "jsstring \<Rightarrow> ColumnSanitizationSettings option"

text \<open>\<open>columnSanitizationSettings[key]?.enableSanitization === false\<close>\<close>

definition sanitizationDisabled :: "column_settings \<Rightarrow> jsstring \<Rightarrow> bool" where
  "sanitizationDisabled settings key =
     (case settings key of Some st \<Rightarrow> enableSanitization st = False | None \<Rightarrow> False)"

text \<open>\<open>columnSanitizationSettings[key]?.columnType\<close>\<close>

definition columnTypeOf :: "column_settings \<Rightarrow> jsstring \<Rightarrow> ColumnType option" where
  "columnTypeOf settings key =
     (case settings key of Some st \<Rightarrow> columnType st | None \<Rightarrow> None)"

text \<open>\<open>columnSanitizationSettings[key]?.preserveCharacters || ""\<close>\<close>

definition preservedCharsOf :: "column_settings \<Rightarrow> jsstring \<Rightarrow> jsstring" where
  "preservedCharsOf settings key =
     (case settings key of
        Some st \<Rightarrow> (case preserveCharacters st of Some p \<Rightarrow> p | None \<Rightarrow> [])
      | None \<Rightarrow> [])"

text \<open>
  The class built from the preserved characters, \<open>[^\w\s...]\<close>: every preserved
  character that is special in a pattern is escaped before it is appended, so each one
  stands for itself in the class.
\<close>

definition specialChars :: "jsstring \<Rightarrow> charclass" where
  "specialChars preservedChars =
     Neg (word_ranges @ space_ranges @ map (\<lambda>c. (c, c)) preservedChars)"

text \<open>The patterns of the per-value detection: \<open>/^\s*[C]\s*[\d,.]+\s*$/\<close> and \<open>/^(\d{5})-\d{4}$/\<close>.\<close>

definition autoCurrencyPattern :: regex where
  "autoCurrencyPattern =
     seqs [Star white, currency_symbol, Star white,
           plus (Chr (Pos (digit_ranges @ [unit_of CHR '','', unit_of CHR ''.'']))),
           Star white]"

definition zipExtensionPattern :: regex where
  "zipExtensionPattern = seqs [rep 5 digit, lit CHR ''-'', rep 4 digit]"

text \<open>The first pass over one cell: the formatting chosen by the column's type.\<close>

definition sanitizeCell ::
  "js_runtime \<Rightarrow> SanitizationOptions \<Rightarrow> column_settings \<Rightarrow> jsstring list \<Rightarrow>
   jsstring \<Rightarrow> cell \<Rightarrow> cell" where
  "sanitizeCell rt sanitizationOptions settings selectedColumns key v =
     (if sanitizationDisabled settings key \<or> key \<notin> set selectedColumns then v
      else
        let ctype = (case columnTypeOf settings key of Some t \<Rightarrow> t | None \<Rightarrow> T_auto) in
        if typeof v = TString then
          if js_trim (str_of v) = [] then v
          else
            (case ctype of
               T_zipcode \<Rightarrow>
                 CStr (page_formatZipCode (str_of v) (sanitizeZipCodes sanitizationOptions))
             | T_phone \<Rightarrow> CStr (formatPhoneNumber (str_of v))
             | T_email \<Rightarrow> CStr (formatEmailAddress rt (str_of v))
             | T_currency \<Rightarrow> CStr (formatCurrency (str_of v))
             | T_ssn \<Rightarrow> CStr (page_formatSSN (str_of v))
             | _ \<Rightarrow>
                 (let isEmail = (ctype = T_auto \<and> matches emailPattern (str_of v));
                      isCurrency = (ctype = T_auto \<and> matches autoCurrencyPattern (str_of v));
                      isPhone = (ctype = T_auto \<and> matches phonePattern (str_of v));
                      isZip = (ctype = T_auto \<and> matches zipPattern (str_of v))
                  in
                    if isEmail then CStr (formatEmailAddress rt (str_of v))
                    else if isCurrency then CStr (formatCurrency (str_of v))
                    else if isPhone then CStr (formatPhoneNumber (str_of v))
                    else if isZip then
                      CStr (page_formatZipCode (str_of v)
                              (sanitizeZipCodes sanitizationOptions))
                    else if removeSpecialChars sanitizationOptions then
                      (let preservedChars = preservedCharsOf settings key in
                       if replaceWithSpace sanitizationOptions then
                         CStr (js_trim (collapse_spaces
                                 (replace_class (specialChars preservedChars) (js '' '')
                                    (str_of v))))
                       else CStr (replace_class (specialChars preservedChars) [] (str_of v)))
                    else v))
        else v)"

text \<open>The second pass over one cell: the ZIP extension is cut off.\<close>

definition stripZipExtension ::
  "column_settings \<Rightarrow> jsstring list \<Rightarrow> jsstring \<Rightarrow> cell \<Rightarrow> cell" where
  "stripZipExtension settings selectedColumns key v =
     (if columnTypeOf settings key \<noteq> None \<or> sanitizationDisabled settings key
           \<or> key \<notin> set selectedColumns
      then v
      else if typeof v = TString then
        (if matches zipExtensionPattern (str_of v) then CStr (take 5 (str_of v)) else v)
      else v)"

text \<open>\<open>Object.keys(row).forEach\<close> with a body that assigns to \<open>row[key]\<close>.\<close>

definition forEachKey :: "(jsstring \<Rightarrow> cell \<Rightarrow> cell) \<Rightarrow> rowobj \<Rightarrow> rowobj" where
  "forEachKey f row = row\<lparr>entries := map (\<lambda>(key, v). (key, f key v)) (entries row)\<rparr>"

text \<open>
  The deep copy \<open>JSON.parse(JSON.stringify(data))\<close> of one row: strings, finite numbers,
  booleans and \<open>null\<close> stay as they are, and the copy is an ordinary object.
\<close>

definition jsonCopy :: "rowobj \<Rightarrow> rowobj" where
  "jsonCopy row = row\<lparr>inherits := True\<rparr>"

text \<open>\<open>sanitizeData\<close>: from the loaded rows to the sanitized rows.\<close>

definition sanitizeData ::
  "js_runtime \<Rightarrow> SanitizationOptions \<Rightarrow> column_settings \<Rightarrow> jsstring list \<Rightarrow>
   rowobj list \<Rightarrow> rowobj list" where
  "sanitizeData rt sanitizationOptions settings selectedColumns rows =
     (if length rows = 0 then []
      else
        let result =
              map (forEachKey (sanitizeCell rt sanitizationOptions settings selectedColumns))
                (map jsonCopy rows)
        in if sanitizeZipCodes sanitizationOptions then
             map (forEachKey (stripZipExtension settings selectedColumns)) result
           else result)"

text \<open>
  The shape of a ZIP code with extension: five digits, a hyphen, four digits.
\<close>

definition zip_extended :: "jsstring \<Rightarrow> bool" where
  "zip_extended s =
     (length s = 10 \<and> list_all is_digit (take 5 s) \<and> s ! 5 = 45
      \<and> list_all is_digit (drop 6 s))"

text \<open>
  Example settings and rows: a column without settings, and a column typed as text; the
  global options only switch the ZIP sanitization on.
\<close>

definition zip_only_options :: SanitizationOptions where
  "zip_only_options =
     \<lparr>removeSpecialChars = False, replaceWithSpace = True, sanitizeZipCodes = True\<rparr>"

definition no_settings :: column_settings where
  "no_settings = (\<lambda>key. None)"

definition text_typed_settings :: column_settings where
  "text_typed_settings =
     (\<lambda>key. if key = js ''zip''
            then Some \<lparr>enableSanitization = True, preserveCharacters = None,
                        columnType = Some T_text\<rparr>
            else None)"

definition zip_rows :: "rowobj list" where
  "zip_rows =
     [\<lparr>entries = [(js ''zip'', CStr (js ''12345-6789'')), (js ''name'', CStr (js ''Bob''))],
       inherits = True\<rparr>]"

section \<open>Properties of the string built-ins\<close>

lemma replace_class_delete: "replace_class cl [] s = filter (\<lambda>c. \<not> in_class cl c) s"
  by (induction s) simp_all

lemma keep_digits: "replace_class (Neg digit_ranges) [] s = filter is_digit s"
proof -
  have "is_digit = in_ranges digit_ranges"
    by (rule ext) (simp add: is_digit_def)
  then show ?thesis
    by (simp add: replace_class_delete)
qed

lemma pad_fill_single: "pad_fill n [c] = replicate n c"
  by (induction n) (simp_all add: pad_fill_def)

lemma padEnd_single: "padEnd s n [c] = s @ replicate (n - length s) c"
  by (simp add: padEnd_def pad_fill_single)

lemma padStart_single: "padStart s n [c] = replicate (n - length s) c @ s"
  by (simp add: padStart_def pad_fill_single)

lemma substring_take_drop: "a \<le> b \<Longrightarrow> substring s a b = take (b - a) (drop a s)"
  by (auto simp: substring_def Let_def min_def max_def)

lemma substring_from_drop: "substring_from s a = drop a s"
  by (auto simp: substring_from_def substring_def Let_def min_def max_def)

lemma js_zero: "js ''0'' = [48]"
  by (simp add: js_def)

lemma js_dash: "js ''-'' = [45]"
  by (simp add: js_def)

lemma padded_is_nine:
  "substring (padEnd (filter is_digit s) 9 (js ''0'')) 0 9 = ssn_nine s"
  by (simp add: js_zero padEnd_single substring_take_drop ssn_nine_def)

text \<open>
  C10. An input without any digit is returned as it is, neither filled to nine digits nor
  reformatted. An input with at least one digit is reduced to its digits, zero-filled and
  cut to exactly nine, and laid out in the configured format: groups of 3, 2 and 4 with
  hyphens, the bare nine digits, or groups of 3 and 2 followed by a masked last group.
\<close>

theorem formatSSN_digitless_unchanged:
  "((\<forall>c \<in> set ssn. \<not> is_digit c) \<longrightarrow> formatSSN fmt ssn = ssn) \<and>
   ((\<exists>c \<in> set ssn. is_digit c) \<longrightarrow>
      length (ssn_nine ssn) = 9 \<and> (\<forall>c \<in> set (ssn_nine ssn). is_digit c) \<and>
      formatSSN fmt ssn =
        (case fmt of
           SSN_Dashed \<Rightarrow> take 3 (ssn_nine ssn) @ js ''-'' @ take 2 (drop 3 (ssn_nine ssn))
                          @ js ''-'' @ drop 5 (ssn_nine ssn)
         | SSN_Digits \<Rightarrow> ssn_nine ssn
         | SSN_Masked \<Rightarrow> take 3 (ssn_nine ssn) @ js ''-'' @ take 2 (drop 3 (ssn_nine ssn))
                          @ js ''-****''))"
proof (intro conjI impI)
  assume "\<forall>c \<in> set ssn. \<not> is_digit c"
  then have "filter is_digit ssn = []"
    by (simp add: filter_empty_conv)
  then show "formatSSN fmt ssn = ssn"
    by (simp add: formatSSN_def keep_digits)
next
  assume some: "\<exists>c \<in> set ssn. is_digit c"
  show "length (ssn_nine ssn) = 9"
    by (simp add: ssn_nine_def)
  have zero: "is_digit 48"
    by (simp add: is_digit_def digit_ranges_def)
  show "\<forall>c \<in> set (ssn_nine ssn). is_digit c"
    using zero by (auto simp: ssn_nine_def dest!: in_set_takeD)
  from some have "filter is_digit ssn \<noteq> []"
    by (simp add: filter_empty_conv)
  then show "formatSSN fmt ssn =
        (case fmt of
           SSN_Dashed \<Rightarrow> take 3 (ssn_nine ssn) @ js ''-'' @ take 2 (drop 3 (ssn_nine ssn))
                          @ js ''-'' @ drop 5 (ssn_nine ssn)
         | SSN_Digits \<Rightarrow> ssn_nine ssn
         | SSN_Masked \<Rightarrow> take 3 (ssn_nine ssn) @ js ''-'' @ take 2 (drop 3 (ssn_nine ssn))
                          @ js ''-****'')"
    by (cases fmt)
       (simp_all add: formatSSN_def keep_digits padded_is_nine Let_def
          substring_take_drop substring_from_drop)
qed

theorem formatSSN_digitless_unchanged_witness:
  "formatSSN SSN_Dashed (js ''n/a'') = js ''n/a'' \<and>
   formatSSN SSN_Dashed (js ''12-3'') = js ''123-00-0000''"
proof -
  have none: "\<forall>c \<in> set (js ''n/a''). \<not> is_digit c"
    by (simp add: js_def is_digit_def digit_ranges_def)
  have some: "\<exists>c \<in> set (js ''12-3''). is_digit c"
    by (simp add: js_def is_digit_def digit_ranges_def)
  have nine: "ssn_nine (js ''12-3'') = js ''123000000''"
    by code_simp
  have a: "formatSSN SSN_Dashed (js ''n/a'') = js ''n/a''"
    using formatSSN_digitless_unchanged [of "js ''n/a''" SSN_Dashed] none by blast
  have b: "formatSSN SSN_Dashed (js ''12-3'') = take 3 (ssn_nine (js ''12-3'')) @ js ''-'' @ take 2 (drop 3 (ssn_nine (js ''12-3'')))
                          @ js ''-'' @ drop 5 (ssn_nine (js ''12-3''))"
    using formatSSN_digitless_unchanged [of "js ''12-3''" SSN_Dashed] some by simp
  have c: "take 3 (js ''123000000'') @ js ''-'' @ take 2 (drop 3 (js ''123000000''))
                          @ js ''-'' @ drop 5 (js ''123000000'') = js ''123-00-0000''"
    by (simp add: js_def)
  from a b c nine show ?thesis by simp
qed

section \<open>Evaluating patterns\<close>

lemma matches_Nothing: "matches Nothing cs = False"
  by (induction cs) simp_all

lemma matches_Alt: "matches (Alt r s) cs = (matches r cs \<or> matches s cs)"
  by (induction cs arbitrary: r s) simp_all

lemma matches_Seq_Nothing: "matches (Seq Nothing r) cs = False"
  by (induction cs) simp_all

lemma matches_Seq_Eps: "matches (Seq Eps r) cs = matches r cs"
  by (cases cs) (simp_all add: matches_Alt matches_Seq_Nothing)

lemma rep_numeral: "rep (numeral k) r = Seq r (rep (pred_numeral k) r)"
  by (simp add: numeral_eq_Suc)

lemma rep_one: "rep 1 r = Seq r Eps"
  by (simp add: One_nat_def)

lemma rep_upto_numeral: "rep_upto (numeral k) r = opt (Seq r (rep_upto (pred_numeral k) r))"
  by (simp add: numeral_eq_Suc)

lemma rep_upto_one: "rep_upto 1 r = opt (Seq r Eps)"
  by (simp add: One_nat_def)

lemmas regex_syntax = opt_def plus_def rep_range_def rep_min_def lit_def digit_def
  anything_def starts_with_def ends_with_def unit_of_def units_from_def
  rep_numeral rep_one rep_upto_numeral rep_upto_one
  digit_ranges_def space_ranges_def word_ranges_def alnum_ranges_def
  separator_def date_separator_def white_def currency_symbol_def

lemmas regex_run = matches_Nothing matches_Alt matches_Seq_Nothing matches_Seq_Eps

section \<open>Column type detection\<close>

lemma count_zip:
  "zipMatches (fold countValue xs k) =
     zipMatches k + length (filter (\<lambda>v. matches zipPattern (str_of v)) xs)"
proof (induction xs arbitrary: k)
  case Nil
  show ?case by simp
next
  case (Cons x xs)
  have "zipMatches (fold countValue (x # xs) k) = zipMatches (fold countValue xs (countValue x k))"
    by simp
  also have "\<dots> = zipMatches (countValue x k)
      + length (filter (\<lambda>v. matches zipPattern (str_of v)) xs)"
    by (rule Cons.IH)
  also have "zipMatches (countValue x k) = bump (matches zipPattern (str_of x)) (zipMatches k)"
    by (simp add: countValue_def)
  finally show ?case
    by (simp add: bump_def)
qed

lemma count_phone:
  "phoneMatches (fold countValue xs k) =
     phoneMatches k + length (filter (\<lambda>v. matches phonePattern (str_of v)) xs)"
proof (induction xs arbitrary: k)
  case Nil
  show ?case by simp
next
  case (Cons x xs)
  have "phoneMatches (fold countValue (x # xs) k) = phoneMatches (fold countValue xs (countValue x k))"
    by simp
  also have "\<dots> = phoneMatches (countValue x k)
      + length (filter (\<lambda>v. matches phonePattern (str_of v)) xs)"
    by (rule Cons.IH)
  also have "phoneMatches (countValue x k) = bump (matches phonePattern (str_of x)) (phoneMatches k)"
    by (simp add: countValue_def)
  finally show ?case
    by (simp add: bump_def)
qed

lemma count_email:
  "emailMatches (fold countValue xs k) =
     emailMatches k + length (filter (\<lambda>v. matches emailPattern (str_of v)) xs)"
proof (induction xs arbitrary: k)
  case Nil
  show ?case by simp
next
  case (Cons x xs)
  have "emailMatches (fold countValue (x # xs) k) = emailMatches (fold countValue xs (countValue x k))"
    by simp
  also have "\<dots> = emailMatches (countValue x k)
      + length (filter (\<lambda>v. matches emailPattern (str_of v)) xs)"
    by (rule Cons.IH)
  also have "emailMatches (countValue x k) = bump (matches emailPattern (str_of x)) (emailMatches k)"
    by (simp add: countValue_def)
  finally show ?case
    by (simp add: bump_def)
qed

lemma count_currency:
  "currencyMatches (fold countValue xs k) =
     currencyMatches k + length (filter (\<lambda>v. matches currencyPattern (str_of v)) xs)"
proof (induction xs arbitrary: k)
  case Nil
  show ?case by simp
next
  case (Cons x xs)
  have "currencyMatches (fold countValue (x # xs) k) = currencyMatches (fold countValue xs (countValue x k))"
    by simp
  also have "\<dots> = currencyMatches (countValue x k)
      + length (filter (\<lambda>v. matches currencyPattern (str_of v)) xs)"
    by (rule Cons.IH)
  also have "currencyMatches (countValue x k) = bump (matches currencyPattern (str_of x)) (currencyMatches k)"
    by (simp add: countValue_def)
  finally show ?case
    by (simp add: bump_def)
qed

lemma count_ssn:
  "ssnMatches (fold countValue xs k) =
     ssnMatches k + length (filter (\<lambda>v. matches ssnPattern (str_of v)) xs)"
proof (induction xs arbitrary: k)
  case Nil
  show ?case by simp
next
  case (Cons x xs)
  have "ssnMatches (fold countValue (x # xs) k) = ssnMatches (fold countValue xs (countValue x k))"
    by simp
  also have "\<dots> = ssnMatches (countValue x k)
      + length (filter (\<lambda>v. matches ssnPattern (str_of v)) xs)"
    by (rule Cons.IH)
  also have "ssnMatches (countValue x k) = bump (matches ssnPattern (str_of x)) (ssnMatches k)"
    by (simp add: countValue_def)
  finally show ?case
    by (simp add: bump_def)
qed

lemma count_date:
  "dateMatches (fold countValue xs k) =
     dateMatches k + length (filter (\<lambda>v. matches datePattern (str_of v)) xs)"
proof (induction xs arbitrary: k)
  case Nil
  show ?case by simp
next
  case (Cons x xs)
  have "dateMatches (fold countValue (x # xs) k) = dateMatches (fold countValue xs (countValue x k))"
    by simp
  also have "\<dots> = dateMatches (countValue x k)
      + length (filter (\<lambda>v. matches datePattern (str_of v)) xs)"
    by (rule Cons.IH)
  also have "dateMatches (countValue x k) = bump (matches datePattern (str_of x)) (dateMatches k)"
    by (simp add: countValue_def)
  finally show ?case
    by (simp add: bump_def)
qed

lemma count_number:
  "numberMatches (fold countValue xs k) =
     numberMatches k + length (filter (\<lambda>v. matches numberPattern (str_of v)) xs)"
proof (induction xs arbitrary: k)
  case Nil
  show ?case by simp
next
  case (Cons x xs)
  have "numberMatches (fold countValue (x # xs) k) = numberMatches (fold countValue xs (countValue x k))"
    by simp
  also have "\<dots> = numberMatches (countValue x k)
      + length (filter (\<lambda>v. matches numberPattern (str_of v)) xs)"
    by (rule Cons.IH)
  also have "numberMatches (countValue x k) = bump (matches numberPattern (str_of x)) (numberMatches k)"
    by (simp add: countValue_def)
  finally show ?case
    by (simp add: bump_def)
qed

lemma percent_threshold:
  assumes "0 < n"
  shows "(60 \<le> percent h n) = (60 * n \<le> 100 * h)"
proof -
  have pos: "(0::rat) < of_nat n"
    using assms by simp
  have "(60 \<le> percent h n) = ((60::rat) * of_nat n \<le> 100 * of_nat h)"
    using pos by (simp add: percent_def pos_le_divide_eq mult.commute)
  also have "\<dots> = ((of_nat (60 * n) :: rat) \<le> of_nat (100 * h))"
    by simp
  also have "\<dots> = (60 * n \<le> 100 * h)"
    by (simp only: of_nat_le_iff)
  finally show ?thesis .
qed

lemma sample_filter:
  "(truthy v \<and> typeof v = TString \<and> js_trim (str_of v) \<noteq> []) = nonEmptyString v"
  by (cases v) (auto simp: nonEmptyString_def js_trim_def)

lemma sampleValues_spec: "sampleValues vs = take 100 (filter nonEmptyString vs)"
  by (simp add: sampleValues_def sample_filter)

lemma detectColumnType_refines: "detectColumnType vs = inferType_spec vs"
proof (cases "take 100 (filter nonEmptyString vs) = []")
  case True
  then show ?thesis
    by (simp add: detectColumnType_def inferType_spec_def sampleValues_spec)
next
  case False
  then have n: "0 < length (take 100 (filter nonEmptyString vs))" and ne: "vs \<noteq> []"
    by auto
  show ?thesis
    using False ne
    by (simp add: detectColumnType_def inferType_spec_def sampleValues_spec Let_def
        count_zip count_phone count_email count_currency count_ssn count_date count_number noMatches_def percent_threshold [OF n] typePriority_def
        clears_threshold_def del: length_take take_eq_Nil)
qed


lemma zip_column_sample:
  "take 100 (filter nonEmptyString
       [CStr (js ''12345''), CStr (js ''90210''), CStr (js ''10001-1234'')])
     = [CStr (js ''12345''), CStr (js ''90210''), CStr (js ''10001-1234'')]"
  by (simp add: nonEmptyString_def js_trim_def js_def is_space_def space_ranges_def)

lemma zip_column_not_email:
  "filter (\<lambda>v. matches emailPattern (str_of v))
     [CStr (js ''12345''), CStr (js ''90210''), CStr (js ''10001-1234'')] = []"
  by (simp add: emailPattern_def js_def regex_syntax regex_run)

lemma zip_column_zip:
  "filter (\<lambda>v. matches zipPattern (str_of v))
     [CStr (js ''12345''), CStr (js ''90210''), CStr (js ''10001-1234'')]
     = [CStr (js ''12345''), CStr (js ''90210''), CStr (js ''10001-1234'')]"
  by (simp add: zipPattern_def js_def regex_syntax regex_run)

text \<open>
  C1. Type inference takes the first 100 non-empty string values of the column (strings
  that are not blank), tries the types in the order email, zipcode, phone, ssn, currency,
  date, number and returns the first one whose pattern at least 60 in 100 of the sample
  match; it returns text when no type reaches that rate and auto when the sample is
  empty. The column with the values 12345, 90210 and 10001-1234 is inferred as zipcode.
\<close>

theorem detectColumnType_priority_vote:
  "detectColumnType values = inferType_spec values \<and>
   detectColumnType [CStr (js ''12345''), CStr (js ''90210''), CStr (js ''10001-1234'')]
     = T_zipcode"
proof
  show "detectColumnType values = inferType_spec values"
    by (rule detectColumnType_refines)
  have email: "\<not> clears_threshold emailPattern
      [CStr (js ''12345''), CStr (js ''90210''), CStr (js ''10001-1234'')]"
    unfolding clears_threshold_def zip_column_not_email by simp
  have zip: "clears_threshold zipPattern
      [CStr (js ''12345''), CStr (js ''90210''), CStr (js ''10001-1234'')]"
    unfolding clears_threshold_def zip_column_zip by simp
  have "inferType_spec [CStr (js ''12345''), CStr (js ''90210''), CStr (js ''10001-1234'')]
      = T_zipcode"
    unfolding inferType_spec_def zip_column_sample typePriority_def
    using email zip by (simp del: filter.simps)
  then show "detectColumnType [CStr (js ''12345''), CStr (js ''90210''), CStr (js ''10001-1234'')]
      = T_zipcode"
    unfolding detectColumnType_refines .
qed

section \<open>Building the table\<close>

lemma keys_set_entry:
  "map fst (set_entry k v es) = (if k \<in> set (map fst es) then map fst es else map fst es @ [k])"
proof (induction es)
  case Nil
  show ?case by simp
next
  case (Cons e es)
  obtain k' v' where e: "e = (k', v')" by (cases e)
  show ?case
    using Cons.IH by (simp add: e)
qed

lemma map_of_set_entry:
  "map_of (set_entry k v es) k' = (if k' = k then Some v else map_of es k')"
proof (induction es)
  case Nil
  show ?case by simp
next
  case (Cons e es)
  obtain k'' v'' where e: "e = (k'', v'')" by (cases e)
  show ?case
    using Cons.IH by (auto simp: e)
qed

lemma obj_set_plain:
  "k \<noteq> protoKey \<Longrightarrow> obj_set k v obj = obj\<lparr>entries := set_entry k v (entries obj)\<rparr>"
  by (simp add: obj_set_def)

lemma obj_set_accessor:
  "inherits obj \<Longrightarrow> protoKey \<notin> set (obj_keys obj) \<Longrightarrow> v \<noteq> CNull \<Longrightarrow>
   obj_set protoKey v obj = obj"
  by (simp add: obj_set_def)

lemma obj_keys_set_plain:
  "k \<noteq> protoKey \<Longrightarrow>
   obj_keys (obj_set k v obj)
     = (if k \<in> set (obj_keys obj) then obj_keys obj else obj_keys obj @ [k])"
  by (simp add: obj_set_plain obj_keys_def keys_set_entry)

lemma keys_set_entry_grows: "set (map fst es) \<subseteq> set (map fst (set_entry k v es))"
  unfolding keys_set_entry by (cases "k \<in> set (map fst es)") auto

lemma keys_set_entry_distinct:
  "distinct (map fst es) \<Longrightarrow> distinct (map fst (set_entry k v es))"
  unfolding keys_set_entry by (cases "k \<in> set (map fst es)") simp_all

lemma obj_keys_set_grows: "set (obj_keys obj) \<subseteq> set (obj_keys (obj_set k v obj))"
proof (cases "k = protoKey \<and> k \<notin> set (obj_keys obj) \<and> inherits obj")
  case True
  then have "obj_set k v obj = (if v = CNull then obj\<lparr>inherits := False\<rparr> else obj)"
    unfolding obj_set_def by (rule if_P)
  then show ?thesis
    by (simp add: obj_keys_def)
next
  case False
  then have "obj_set k v obj = obj\<lparr>entries := set_entry k v (entries obj)\<rparr>"
    unfolding obj_set_def by (rule if_not_P)
  then show ?thesis
    using keys_set_entry_grows [of "entries obj" k v] by (simp add: obj_keys_def)
qed

lemma obj_keys_set_distinct:
  assumes "distinct (obj_keys obj)"
  shows "distinct (obj_keys (obj_set k v obj))"
proof (cases "k = protoKey \<and> k \<notin> set (obj_keys obj) \<and> inherits obj")
  case True
  then have "obj_set k v obj = (if v = CNull then obj\<lparr>inherits := False\<rparr> else obj)"
    unfolding obj_set_def by (rule if_P)
  then show ?thesis
    using assms by (simp add: obj_keys_def)
next
  case False
  then have "obj_set k v obj = obj\<lparr>entries := set_entry k v (entries obj)\<rparr>"
    unfolding obj_set_def by (rule if_not_P)
  then show ?thesis
    using keys_set_entry_distinct [of "entries obj" k v] assms by (simp add: obj_keys_def)
qed

lemma entry_set_plain:
  "k \<noteq> protoKey \<Longrightarrow> map_of (entries (obj_set k v obj)) k = Some v"
  by (simp add: obj_set_plain map_of_set_entry)

lemma entry_set_other:
  assumes "k' \<noteq> k"
  shows "map_of (entries (obj_set k v obj)) k' = map_of (entries obj) k'"
proof (cases "k = protoKey \<and> k \<notin> set (obj_keys obj) \<and> inherits obj")
  case True
  then have "obj_set k v obj = (if v = CNull then obj\<lparr>inherits := False\<rparr> else obj)"
    unfolding obj_set_def by (rule if_P)
  then show ?thesis
    by simp
next
  case False
  then have "obj_set k v obj = obj\<lparr>entries := set_entry k v (entries obj)\<rparr>"
    unfolding obj_set_def by (rule if_not_P)
  then show ?thesis
    using assms by (simp add: map_of_set_entry)
qed

lemma obj_get_own: "map_of (entries obj) k = Some v \<Longrightarrow> obj_get obj k = Some (Prim v)"
  by (simp add: obj_get_def)

lemma rowPrefix_0: "rowPrefix headers row 0 = emptyObject"
  by (simp add: rowPrefix_def)

lemma rowPrefix_Suc:
  "rowPrefix headers row (Suc n) =
     obj_set (headers ! n) (if n < length row then row ! n else CStr []) (rowPrefix headers row n)"
  by (simp add: rowPrefix_def)

lemma rowObject_prefix: "rowObject headers row = rowPrefix headers row (length headers)"
  by (simp add: rowObject_def rowPrefix_def)

lemma rowPrefix_keys_distinct: "distinct (obj_keys (rowPrefix headers row n))"
proof (induction n)
  case 0
  show ?case by (simp add: rowPrefix_0 emptyObject_def obj_keys_def)
next
  case (Suc n)
  then show ?case
    unfolding rowPrefix_Suc by (rule obj_keys_set_distinct)
qed

lemma rowPrefix_has_key:
  "j < n \<Longrightarrow> headers ! j \<noteq> protoKey \<Longrightarrow> headers ! j \<in> set (obj_keys (rowPrefix headers row n))"
proof (induction n)
  case 0
  then show ?case by simp
next
  case (Suc n)
  show ?case
  proof (cases "j = n")
    case True
    with Suc.prems show ?thesis
      by (simp add: rowPrefix_Suc obj_keys_set_plain)
  next
    case False
    with Suc.prems have "j < n" by simp
    with Suc have "headers ! j \<in> set (obj_keys (rowPrefix headers row n))"
      by simp
    then show ?thesis
      unfolding rowPrefix_Suc using obj_keys_set_grows by blast
  qed
qed

text \<open>
  While no \<open>null\<close> is assigned to \<open>__proto__\<close>, the row object keeps its prototype and
  gets no own property of that name.
\<close>

lemma rowPrefix_keeps_prototype:
  assumes "\<forall>j < n. headers ! j = protoKey \<longrightarrow> j < length row \<longrightarrow> row ! j \<noteq> CNull"
    and "n \<le> length headers"
  shows "inherits (rowPrefix headers row n)
     \<and> set (obj_keys (rowPrefix headers row n)) = set (take n headers) - {protoKey}"
  using assms
proof (induction n)
  case 0
  show ?case by (simp add: rowPrefix_0 emptyObject_def obj_keys_def)
next
  case (Suc n)
  then have ih: "inherits (rowPrefix headers row n)"
    "set (obj_keys (rowPrefix headers row n)) = set (take n headers) - {protoKey}"
    by simp_all
  from Suc.prems have n: "n < length headers" by simp
  show ?case
  proof (cases "headers ! n = protoKey")
    case True
    have v: "(if n < length row then row ! n else CStr []) \<noteq> CNull"
      using Suc.prems(1) True by simp
    have "protoKey \<notin> set (obj_keys (rowPrefix headers row n))"
      using ih(2) by simp
    from ih(1) this v have "rowPrefix headers row (Suc n) = rowPrefix headers row n"
      unfolding rowPrefix_Suc True by (rule obj_set_accessor)
    with ih True n show ?thesis
      by (auto simp: take_Suc_conv_app_nth)
  next
    case False
    have "inherits (rowPrefix headers row (Suc n))"
      using ih(1) False by (simp add: rowPrefix_Suc obj_set_plain)
    moreover have "set (obj_keys (rowPrefix headers row (Suc n)))
        = set (take (Suc n) headers) - {protoKey}"
      using ih(2) False n by (auto simp: rowPrefix_Suc obj_keys_set_plain take_Suc_conv_app_nth)
    ultimately show ?thesis ..
  qed
qed

lemma rowPrefix_padding:
  "j < n \<Longrightarrow> length row \<le> j \<Longrightarrow> headers ! j \<noteq> protoKey \<Longrightarrow>
   map_of (entries (rowPrefix headers row n)) (headers ! j) = Some (CStr [])"
proof (induction n)
  case 0
  then show ?case by simp
next
  case (Suc n)
  show ?case
  proof (cases "headers ! j = headers ! n")
    case True
    with Suc.prems have "headers ! n \<noteq> protoKey" and "\<not> n < length row"
      by simp_all
    then show ?thesis
      unfolding rowPrefix_Suc True by (simp add: entry_set_plain)
  next
    case False
    then have "j \<noteq> n" by auto
    with Suc.prems have "j < n" by simp
    with Suc have "map_of (entries (rowPrefix headers row n)) (headers ! j) = Some (CStr [])"
      by simp
    with False show ?thesis
      unfolding rowPrefix_Suc by (simp add: entry_set_other)
  qed
qed

lemma rowObject_keys_distinct: "distinct (obj_keys (rowObject headers row))"
  by (simp add: rowObject_prefix rowPrefix_keys_distinct)

lemma rowObject_has_key:
  "j < length headers \<Longrightarrow> headers ! j \<noteq> protoKey \<Longrightarrow>
   headers ! j \<in> set (obj_keys (rowObject headers row))"
  by (simp add: rowObject_prefix rowPrefix_has_key)

lemma rowObject_keys_set:
  assumes "protoKey \<notin> set headers \<or> list_all (\<lambda>c. c \<noteq> CNull) row"
  shows "set (obj_keys (rowObject headers row)) = set headers - {protoKey}"
proof -
  have "\<forall>j < length headers. headers ! j = protoKey \<longrightarrow> j < length row \<longrightarrow> row ! j \<noteq> CNull"
  proof (intro allI impI)
    fix j
    assume j: "j < length headers" "headers ! j = protoKey" "j < length row"
    from j(1) have "headers ! j \<in> set headers"
      by (rule nth_mem)
    with j(2) have "protoKey \<in> set headers"
      by simp
    with assms have "list_all (\<lambda>c. c \<noteq> CNull) row"
      by simp
    with j(3) show "row ! j \<noteq> CNull"
      by (simp add: list_all_length)
  qed
  then show ?thesis
    using rowPrefix_keeps_prototype [of "length headers" headers row]
    by (simp add: rowObject_prefix)
qed

lemma rowObject_key_count:
  assumes "protoKey \<notin> set headers \<or> list_all (\<lambda>c. c \<noteq> CNull) row"
  shows "length (obj_keys (rowObject headers row)) = card (set headers - {protoKey})"
proof -
  have "card (set (obj_keys (rowObject headers row))) = length (obj_keys (rowObject headers row))"
    using rowObject_keys_distinct by (rule distinct_card)
  then show ?thesis
    unfolding rowObject_keys_set [OF assms] by simp
qed

lemma rowObject_padding:
  "j < length headers \<Longrightarrow> length row \<le> j \<Longrightarrow> headers ! j \<noteq> protoKey \<Longrightarrow>
   obj_get (rowObject headers row) (headers ! j) = Some (Prim (CStr []))"
  by (simp add: rowObject_prefix rowPrefix_padding obj_get_own)

lemma length_extractHeaders: "length (extractHeaders rt cells) = length cells"
  by (simp add: extractHeaders_def)

lemma nth_extractHeaders:
  "i < length cells \<Longrightarrow> extractHeaders rt cells ! i = headerKey rt (cells ! i) i"
  by (simp add: extractHeaders_def)

lemma processSheet_in_bounds:
  "h < length G \<Longrightarrow>
   processSheetWithCustomHeaders rt G \<lparr>headerRow = Some h, skipRows = sk\<rparr>
     = Inr (map (\<lambda>i. rowObject (extractHeaders rt (G ! h)) (G ! i)) [Suc h ..< length G])"
  by (auto simp: processSheetWithCustomHeaders_def headerRowIndexOf_def Let_def)

lemma card_without_le: "card (set xs - {k}) \<le> length xs"
proof -
  have "card (set xs - {k}) \<le> card (set xs)"
    by (rule card_mono) auto
  also have "\<dots> \<le> length xs"
    by (rule card_length)
  finally show ?thesis .
qed

lemma data_rows_cells:
  "sheet_cells (drop (Suc h) G) \<Longrightarrow> Suc h \<le> i \<Longrightarrow> i < length G \<Longrightarrow>
   list_all (\<lambda>c. c \<noteq> CNull) (G ! i)"
proof -
  assume a: "sheet_cells (drop (Suc h) G)" and b: "Suc h \<le> i" and c: "i < length G"
  from b c have d: "drop (Suc h) G ! (i - Suc h) = G ! i"
    and e: "i - Suc h < length (drop (Suc h) G)"
    by simp_all
  from e have "drop (Suc h) G ! (i - Suc h) \<in> set (drop (Suc h) G)"
    by (rule nth_mem)
  then have "G ! i \<in> set (drop (Suc h) G)"
    unfolding d .
  with a show ?thesis
    by (simp add: sheet_cells_def list_all_iff)
qed

lemmas js_eval = js_def js_trim_def is_space_def space_ranges_def

text \<open>
  C3, as the code has it. Take a sheet and a header index within bounds, where no data
  cell is \<open>null\<close> or no derived key is \<open>__proto__\<close>. The table is built; all its rows have
  the same keys, namely the keys derived from the header row but \<open>__proto__\<close>, whose
  assignment creates no property; the number of keys is the number of these distinct
  keys, which is at most the header row's cell count and equals it when the derived keys
  are pairwise distinct and none is \<open>__proto__\<close>; and a data row shorter than the header
  row holds the empty string at the key of every position beyond its end.
\<close>

theorem materialize_rows_uniform:
  assumes "h < length G"
    and "protoKey \<notin> set (extractHeaders rt (G ! h)) \<or> sheet_cells (drop (Suc h) G)"
  shows "\<exists>rows. processSheetWithCustomHeaders rt G \<lparr>headerRow = Some h, skipRows = sk\<rparr> = Inr rows
     \<and> length rows = length G - Suc h
     \<and> (\<forall>r \<in> set rows. \<forall>r' \<in> set rows. set (obj_keys r) = set (obj_keys r'))
     \<and> (\<forall>r \<in> set rows.
           set (obj_keys r) = set (extractHeaders rt (G ! h)) - {protoKey}
         \<and> distinct (obj_keys r)
         \<and> length (obj_keys r) = card (set (extractHeaders rt (G ! h)) - {protoKey})
         \<and> length (obj_keys r) \<le> length (G ! h)
         \<and> (distinct (extractHeaders rt (G ! h)) \<and> protoKey \<notin> set (extractHeaders rt (G ! h))
              \<longrightarrow> length (obj_keys r) = length (G ! h)))
     \<and> (\<forall>i < length rows. \<forall>j < length (G ! h).
           length (G ! (Suc h + i)) \<le> j \<and> extractHeaders rt (G ! h) ! j \<noteq> protoKey \<longrightarrow>
           obj_get (rows ! i) (extractHeaders rt (G ! h) ! j) = Some (Prim (CStr [])))"
proof -
  define headers where "headers = extractHeaders rt (G ! h)"
  define rows where "rows = map (\<lambda>i. rowObject headers (G ! i)) [Suc h ..< length G]"
  have res: "processSheetWithCustomHeaders rt G \<lparr>headerRow = Some h, skipRows = sk\<rparr> = Inr rows"
    using assms(1) by (simp add: processSheet_in_bounds rows_def headers_def)
  have len: "length rows = length G - Suc h"
    by (simp add: rows_def)
  have row: "\<exists>i. Suc h \<le> i \<and> i < length G \<and> r = rowObject headers (G ! i)"
    if "r \<in> set rows" for r
    using that by (auto simp: rows_def)
  have hl: "length headers = length (G ! h)"
    by (simp add: headers_def length_extractHeaders)
  have keys: "set (obj_keys r) = set headers - {protoKey}
      \<and> distinct (obj_keys r)
      \<and> length (obj_keys r) = card (set headers - {protoKey})
      \<and> length (obj_keys r) \<le> length (G ! h)
      \<and> (distinct headers \<and> protoKey \<notin> set headers \<longrightarrow> length (obj_keys r) = length (G ! h))"
    if "r \<in> set rows" for r
  proof -
    from row [OF that] obtain i where i: "Suc h \<le> i" "i < length G"
      and r: "r = rowObject headers (G ! i)"
      by blast
    have ok: "protoKey \<notin> set headers \<or> list_all (\<lambda>c. c \<noteq> CNull) (G ! i)"
      using assms(2) i data_rows_cells unfolding headers_def by blast
    have a: "set (obj_keys r) = set headers - {protoKey}"
      unfolding r using ok by (rule rowObject_keys_set)
    have b: "distinct (obj_keys r)"
      unfolding r by (rule rowObject_keys_distinct)
    have c: "length (obj_keys r) = card (set headers - {protoKey})"
      unfolding r using ok by (rule rowObject_key_count)
    have d: "length (obj_keys r) \<le> length (G ! h)"
      unfolding c hl [symmetric] by (rule card_without_le)
    have e: "length (obj_keys r) = length (G ! h)"
      if "distinct headers \<and> protoKey \<notin> set headers"
      using that unfolding c hl [symmetric] by (simp add: distinct_card)
    from a b c d e show ?thesis
      by blast
  qed
  have same: "\<forall>r \<in> set rows. \<forall>r' \<in> set rows. set (obj_keys r) = set (obj_keys r')"
    using keys by simp
  have pad: "obj_get (rows ! i) (headers ! j) = Some (Prim (CStr []))"
    if "i < length rows" "j < length (G ! h)"
      "length (G ! (Suc h + i)) \<le> j \<and> headers ! j \<noteq> protoKey" for i j
  proof -
    have "rows ! i = rowObject headers (G ! (Suc h + i))"
      using that(1) by (simp add: rows_def)
    then show ?thesis
      using that hl by (simp add: rowObject_padding)
  qed
  show ?thesis
    using res len same keys pad unfolding headers_def [symmetric] by blast
qed

lemma decimal_digit: "n < 10 \<Longrightarrow> decimal n = [48 + n]"
  by (simp add: decimal.simps)

lemmas sheet_eval = processSheetWithCustomHeaders_def headerRowIndexOf_def extractHeaders_def
  headerKey_def rowObject_def obj_set_def obj_keys_def emptyObject_def protoKey_def js_eval

lemma short_row_table:
  "processSheetWithCustomHeaders example_runtime short_row_sheet
     \<lparr>headerRow = Some 0, skipRows = None\<rparr>
   = Inr [\<lparr>entries = [(js ''Name'', CStr (js ''Alice'')), (js ''Age'', CStr [])],
           inherits = True\<rparr>]"
  by (simp add: short_row_sheet_def sheet_eval)

text \<open>
  A header cell \<open>__proto__\<close> gives its column no key: the rows of the example have the
  one key \<open>a\<close>.
\<close>

lemma proto_header_table:
  "processSheetWithCustomHeaders example_runtime proto_header_sheet
     \<lparr>headerRow = Some 0, skipRows = None\<rparr>
   = Inr [\<lparr>entries = [(js ''a'', CStr (js ''y''))], inherits = True\<rparr>]"
  by (simp add: proto_header_sheet_def sheet_eval)

theorem materialize_rows_uniform_witness:
  "0 < length short_row_sheet \<and>
   sheet_cells (drop (Suc 0) short_row_sheet) \<and>
   processSheetWithCustomHeaders example_runtime short_row_sheet
     \<lparr>headerRow = Some 0, skipRows = None\<rparr>
     = Inr [\<lparr>entries = [(js ''Name'', CStr (js ''Alice'')), (js ''Age'', CStr [])],
             inherits = True\<rparr>] \<and>
   length (obj_keys \<lparr>entries = [(js ''Name'', CStr (js ''Alice'')), (js ''Age'', CStr [])],
                     inherits = True\<rparr>)
     = length (short_row_sheet ! 0) \<and>
   obj_get \<lparr>entries = [(js ''Name'', CStr (js ''Alice'')), (js ''Age'', CStr [])],
            inherits = True\<rparr> (js ''Age'')
     = Some (Prim (CStr []))"
proof -
  define r where
    "r = \<lparr>entries = [(js ''Name'', CStr (js ''Alice'')), (js ''Age'', CStr [])],
          inherits = True\<rparr>"
  have h: "0 < length short_row_sheet"
    by (simp add: short_row_sheet_def)
  have c: "sheet_cells (drop (Suc 0) short_row_sheet)"
    by (simp add: short_row_sheet_def sheet_cells_def)
  have hs: "extractHeaders example_runtime (short_row_sheet ! 0) = [js ''Name'', js ''Age'']"
    by (simp add: short_row_sheet_def extractHeaders_def headerKey_def js_eval)
  have d: "distinct [js ''Name'', js ''Age''] \<and> protoKey \<notin> set [js ''Name'', js ''Age'']"
    "[js ''Name'', js ''Age''] ! 1 \<noteq> protoKey"
    by (simp_all add: js_def protoKey_def)
  have t: "processSheetWithCustomHeaders example_runtime short_row_sheet
            \<lparr>headerRow = Some 0, skipRows = None\<rparr> = Inr [r]"
    unfolding r_def by (rule short_row_table)
  from materialize_rows_uniform [OF h disjI2, OF c, of example_runtime None]
  obtain rows where
    res: "processSheetWithCustomHeaders example_runtime short_row_sheet
            \<lparr>headerRow = Some 0, skipRows = None\<rparr> = Inr rows"
    and keys: "\<forall>r \<in> set rows.
           set (obj_keys r) = set (extractHeaders example_runtime (short_row_sheet ! 0)) - {protoKey}
         \<and> distinct (obj_keys r)
         \<and> length (obj_keys r)
             = card (set (extractHeaders example_runtime (short_row_sheet ! 0)) - {protoKey})
         \<and> length (obj_keys r) \<le> length (short_row_sheet ! 0)
         \<and> (distinct (extractHeaders example_runtime (short_row_sheet ! 0))
              \<and> protoKey \<notin> set (extractHeaders example_runtime (short_row_sheet ! 0)) \<longrightarrow>
              length (obj_keys r) = length (short_row_sheet ! 0))"
    and pad: "\<forall>i < length rows. \<forall>j < length (short_row_sheet ! 0).
           length (short_row_sheet ! (Suc 0 + i)) \<le> j
             \<and> extractHeaders example_runtime (short_row_sheet ! 0) ! j \<noteq> protoKey \<longrightarrow>
           obj_get (rows ! i) (extractHeaders example_runtime (short_row_sheet ! 0) ! j)
             = Some (Prim (CStr []))"
    by blast
  from res have rows: "rows = [r]"
    unfolding t by simp
  from keys d(1) have n: "length (obj_keys r) = length (short_row_sheet ! 0)"
    unfolding rows hs by simp
  have "obj_get (rows ! 0) (extractHeaders example_runtime (short_row_sheet ! 0) ! 1)
      = Some (Prim (CStr []))"
  proof (rule pad [rule_format])
    show "0 < length rows" by (simp add: rows)
    show "1 < length (short_row_sheet ! 0)" by (simp add: short_row_sheet_def)
    show "length (short_row_sheet ! (Suc 0 + 0)) \<le> 1
      \<and> extractHeaders example_runtime (short_row_sheet ! 0) ! 1 \<noteq> protoKey"
      unfolding hs using d(2) by (simp add: short_row_sheet_def)
  qed
  then have p: "obj_get r (js ''Age'') = Some (Prim (CStr []))"
    unfolding rows hs by simp
  from h c t n p show ?thesis
    unfolding r_def by blast
qed

theorem repeated_header_key_count_counterexample:
  "processSheetWithCustomHeaders example_runtime repeated_header_sheet
     \<lparr>headerRow = Some 0, skipRows = None\<rparr>
     = Inr [\<lparr>entries = [(js ''A'', CStr (js ''y''))], inherits = True\<rparr>] \<and>
   length (obj_keys \<lparr>entries = [(js ''A'', CStr (js ''y''))], inherits = True\<rparr>)
     \<noteq> length (repeated_header_sheet ! 0)"
  by (simp add: repeated_header_sheet_def sheet_eval)

text \<open>
  C4, as the code has it. A header cell that is the empty string, zero, false or \<open>null\<close>
  at position \<open>i\<close> gets the key Column followed by \<open>i + 1\<close>. Every other header cell whose
  trimmed string is not empty gets that trimmed string as its key. The key of a position
  is a key of every row, unless it is \<open>__proto__\<close>, which is a key of no row of a sheet
  without \<open>null\<close> cells. A header cell that repeats an earlier one is not renamed: it
  keeps its trimmed value.
\<close>

theorem column_keys_from_header:
  assumes "h < length G" and "i < length (G ! h)"
  shows "(\<not> truthy (G ! h ! i) \<longrightarrow>
            extractHeaders rt (G ! h) ! i = js ''Column'' @ decimal (i + 1))
       \<and> (truthy (G ! h ! i) \<and> js_trim (js_String rt (G ! h ! i)) \<noteq> [] \<longrightarrow>
            extractHeaders rt (G ! h) ! i = js_trim (js_String rt (G ! h ! i)))
       \<and> (\<exists>rows. processSheetWithCustomHeaders rt G \<lparr>headerRow = Some h, skipRows = sk\<rparr>
                    = Inr rows
              \<and> (extractHeaders rt (G ! h) ! i \<noteq> protoKey \<longrightarrow>
                   (\<forall>r \<in> set rows. extractHeaders rt (G ! h) ! i \<in> set (obj_keys r)))
              \<and> (extractHeaders rt (G ! h) ! i = protoKey \<and> sheet_cells (drop (Suc h) G) \<longrightarrow>
                   (\<forall>r \<in> set rows. extractHeaders rt (G ! h) ! i \<notin> set (obj_keys r))))"
proof (intro conjI impI)
  assume "\<not> truthy (G ! h ! i)"
  then show "extractHeaders rt (G ! h) ! i = js ''Column'' @ decimal (i + 1)"
    using assms(2) by (simp add: nth_extractHeaders headerKey_def)
next
  assume "truthy (G ! h ! i) \<and> js_trim (js_String rt (G ! h ! i)) \<noteq> []"
  then show "extractHeaders rt (G ! h) ! i = js_trim (js_String rt (G ! h ! i))"
    using assms(2) by (simp add: nth_extractHeaders headerKey_def)
next
  define headers where "headers = extractHeaders rt (G ! h)"
  define rows where "rows = map (\<lambda>i. rowObject headers (G ! i)) [Suc h ..< length G]"
  have res: "processSheetWithCustomHeaders rt G \<lparr>headerRow = Some h, skipRows = sk\<rparr> = Inr rows"
    using assms(1) by (simp add: processSheet_in_bounds rows_def headers_def)
  have i: "i < length headers"
    using assms(2) by (simp add: headers_def length_extractHeaders)
  have row: "\<exists>i. Suc h \<le> i \<and> i < length G \<and> r = rowObject headers (G ! i)"
    if "r \<in> set rows" for r
    using that by (auto simp: rows_def)
  have a: "headers ! i \<in> set (obj_keys r)" if "headers ! i \<noteq> protoKey" "r \<in> set rows" for r
    using row [OF that(2)] i that(1) rowObject_has_key by blast
  have b: "headers ! i \<notin> set (obj_keys r)"
    if "headers ! i = protoKey \<and> sheet_cells (drop (Suc h) G)" "r \<in> set rows" for r
  proof -
    from row [OF that(2)] obtain k where k: "Suc h \<le> k" "k < length G"
      and r: "r = rowObject headers (G ! k)"
      by blast
    from that(1) k have "list_all (\<lambda>c. c \<noteq> CNull) (G ! k)"
      using data_rows_cells by blast
    then have "set (obj_keys r) = set headers - {protoKey}"
      unfolding r by (simp add: rowObject_keys_set)
    with that(1) show ?thesis
      by simp
  qed
  show "\<exists>rows. processSheetWithCustomHeaders rt G \<lparr>headerRow = Some h, skipRows = sk\<rparr>
                    = Inr rows
              \<and> (extractHeaders rt (G ! h) ! i \<noteq> protoKey \<longrightarrow>
                   (\<forall>r \<in> set rows. extractHeaders rt (G ! h) ! i \<in> set (obj_keys r)))
              \<and> (extractHeaders rt (G ! h) ! i = protoKey \<and> sheet_cells (drop (Suc h) G) \<longrightarrow>
                   (\<forall>r \<in> set rows. extractHeaders rt (G ! h) ! i \<notin> set (obj_keys r)))"
    using res a b unfolding headers_def [symmetric] by blast
qed

lemma blank_header_table:
  "processSheetWithCustomHeaders example_runtime blank_header_sheet
     \<lparr>headerRow = Some 0, skipRows = None\<rparr>
   = Inr [\<lparr>entries = [(js ''Name'', CStr (js ''Alice'')), (js ''Column2'', CStr (js ''30''))],
           inherits = True\<rparr>]"
  by (simp add: blank_header_sheet_def sheet_eval decimal_digit)

text \<open>Header cells that are zero and false get synthetic keys like an empty one.\<close>

lemma falsy_header_keys:
  "extractHeaders example_runtime (falsy_header_sheet ! 0)
     = [js ''Column1'', js ''Column2'', js ''7'']"
  by (simp add: falsy_header_sheet_def extractHeaders_def headerKey_def example_runtime_def
      js_String.simps js_eval decimal_digit upt_rec)

theorem column_keys_from_header_witness:
  "0 < length blank_header_sheet \<and> 1 < length (blank_header_sheet ! 0) \<and>
   \<not> truthy (blank_header_sheet ! 0 ! 1) \<and>
   truthy (blank_header_sheet ! 0 ! 0) \<and>
   extractHeaders example_runtime (blank_header_sheet ! 0) ! 0 = js ''Name'' \<and>
   extractHeaders example_runtime (blank_header_sheet ! 0) ! 1 = js ''Column2'' \<and>
   js ''Column2'' \<noteq> protoKey \<and>
   processSheetWithCustomHeaders example_runtime blank_header_sheet
     \<lparr>headerRow = Some 0, skipRows = None\<rparr>
   = Inr [\<lparr>entries = [(js ''Name'', CStr (js ''Alice'')), (js ''Column2'', CStr (js ''30''))],
           inherits = True\<rparr>] \<and>
   js ''Column2''
     \<in> set (obj_keys
         \<lparr>entries = [(js ''Name'', CStr (js ''Alice'')), (js ''Column2'', CStr (js ''30''))],
          inherits = True\<rparr>) \<and>
   0 < length falsy_header_sheet \<and> 1 < length (falsy_header_sheet ! 0) \<and>
   \<not> truthy (falsy_header_sheet ! 0 ! 0) \<and> \<not> truthy (falsy_header_sheet ! 0 ! 1) \<and>
   extractHeaders example_runtime (falsy_header_sheet ! 0) ! 0 = js ''Column1'' \<and>
   extractHeaders example_runtime (falsy_header_sheet ! 0) ! 1 = js ''Column2''"
proof -
  define r where
    "r = \<lparr>entries = [(js ''Name'', CStr (js ''Alice'')), (js ''Column2'', CStr (js ''30''))],
          inherits = True\<rparr>"
  have h: "0 < length blank_header_sheet"
    by (simp add: blank_header_sheet_def)
  have i0: "0 < length (blank_header_sheet ! 0)" and i1: "1 < length (blank_header_sheet ! 0)"
    by (simp_all add: blank_header_sheet_def)
  have c1: "\<not> truthy (blank_header_sheet ! 0 ! 1)"
    by (simp add: blank_header_sheet_def)
  have c0: "truthy (blank_header_sheet ! 0 ! 0)"
    and t0: "js_trim (js_String example_runtime (blank_header_sheet ! 0 ! 0)) = js ''Name''"
    by (simp_all add: blank_header_sheet_def js_eval)
  have n0: "js ''Name'' \<noteq> []"
    by (simp add: js_def)
  have d1: "js ''Column'' @ decimal (0 + 1) = js ''Column1''"
    and d2: "js ''Column'' @ decimal (1 + 1) = js ''Column2''"
    by (simp_all add: js_def decimal_digit)
  have p: "js ''Column2'' \<noteq> protoKey"
    by (simp add: js_def protoKey_def)
  have t: "processSheetWithCustomHeaders example_runtime blank_header_sheet
            \<lparr>headerRow = Some 0, skipRows = None\<rparr> = Inr [r]"
    unfolding r_def by (rule blank_header_table)
  note at1 = column_keys_from_header [OF h i1, of example_runtime None]
  from at1 c1 have "extractHeaders example_runtime (blank_header_sheet ! 0) ! 1
      = js ''Column'' @ decimal (1 + 1)"
    by blast
  then have k1: "extractHeaders example_runtime (blank_header_sheet ! 0) ! 1 = js ''Column2''"
    unfolding d2 .
  from column_keys_from_header [OF h i0, of example_runtime None] c0 t0 n0
  have k0: "extractHeaders example_runtime (blank_header_sheet ! 0) ! 0 = js ''Name''"
    by simp
  from at1 obtain rows where
    res: "processSheetWithCustomHeaders example_runtime blank_header_sheet
            \<lparr>headerRow = Some 0, skipRows = None\<rparr> = Inr rows"
    and mem: "extractHeaders example_runtime (blank_header_sheet ! 0) ! 1 \<noteq> protoKey \<longrightarrow>
       (\<forall>r \<in> set rows.
          extractHeaders example_runtime (blank_header_sheet ! 0) ! 1 \<in> set (obj_keys r))"
    by blast
  from res have rows: "rows = [r]"
    unfolding t by simp
  from mem p have m: "js ''Column2'' \<in> set (obj_keys r)"
    unfolding k1 rows by simp
  have g: "0 < length falsy_header_sheet"
    by (simp add: falsy_header_sheet_def)
  have j0: "0 < length (falsy_header_sheet ! 0)" and j1: "1 < length (falsy_header_sheet ! 0)"
    by (simp_all add: falsy_header_sheet_def)
  have f0: "\<not> truthy (falsy_header_sheet ! 0 ! 0)" and f1: "\<not> truthy (falsy_header_sheet ! 0 ! 1)"
    by (simp_all add: falsy_header_sheet_def)
  from column_keys_from_header [OF g j0, of example_runtime None] f0
  have "extractHeaders example_runtime (falsy_header_sheet ! 0) ! 0
      = js ''Column'' @ decimal (0 + 1)"
    by blast
  then have e0: "extractHeaders example_runtime (falsy_header_sheet ! 0) ! 0 = js ''Column1''"
    unfolding d1 .
  from column_keys_from_header [OF g j1, of example_runtime None] f1
  have "extractHeaders example_runtime (falsy_header_sheet ! 0) ! 1
      = js ''Column'' @ decimal (1 + 1)"
    by blast
  then have e1: "extractHeaders example_runtime (falsy_header_sheet ! 0) ! 1 = js ''Column2''"
    unfolding d2 .
  from h i1 c1 c0 k0 k1 p t m g j1 f0 f1 e0 e1 show ?thesis
    unfolding r_def by blast
qed

theorem repeated_header_not_renamed_counterexample:
  "extractHeaders example_runtime (repeated_zip_sheet ! 0) = [js ''Zip'', js ''Zip''] \<and>
   js ''Zip'' \<noteq> js ''Column2'' \<and>
   processSheetWithCustomHeaders example_runtime repeated_zip_sheet
     \<lparr>headerRow = Some 0, skipRows = None\<rparr>
     = Inr [\<lparr>entries = [(js ''Zip'', CStr (js ''90210''))], inherits = True\<rparr>]"
  by (simp add: repeated_zip_sheet_def sheet_eval)

section \<open>Header row detection\<close>

lemma for_first_Some_iff:
  "for_first lo hi body = Some r \<longleftrightarrow>
     (\<exists>i. lo \<le> i \<and> i < hi \<and> body i = Some r \<and> (\<forall>j. lo \<le> j \<and> j < i \<longrightarrow> body j = None))"
proof (induction lo hi body rule: for_first.induct)
  case (1 i hi body)
  show ?case
  proof (cases "i < hi")
    case False
    then show ?thesis
      by (simp add: for_first.simps [of i hi body])
  next
    case True
    show ?thesis
    proof (cases "body i")
      case (Some r')
      have "(\<exists>k. i \<le> k \<and> k < hi \<and> body k = Some r \<and> (\<forall>j. i \<le> j \<and> j < k \<longrightarrow> body j = None))
          = (r' = r)"
      proof
        assume "\<exists>k. i \<le> k \<and> k < hi \<and> body k = Some r \<and> (\<forall>j. i \<le> j \<and> j < k \<longrightarrow> body j = None)"
        then obtain k where k: "i \<le> k" "body k = Some r" "\<forall>j. i \<le> j \<and> j < k \<longrightarrow> body j = None"
          by blast
        have "k = i"
        proof (rule ccontr)
          assume "k \<noteq> i"
          with k(1) have "i < k" by simp
          with k(3) have "body i = None" by simp
          with Some show False by simp
        qed
        with k(2) Some show "r' = r" by simp
      next
        assume "r' = r"
        with Some True show "\<exists>k. i \<le> k \<and> k < hi \<and> body k = Some r
            \<and> (\<forall>j. i \<le> j \<and> j < k \<longrightarrow> body j = None)"
          by (intro exI [of _ i]) auto
      qed
      with True Some show ?thesis
        by (simp add: for_first.simps [of i hi body])
    next
      case None
      have "(\<exists>k. i \<le> k \<and> k < hi \<and> body k = Some r \<and> (\<forall>j. i \<le> j \<and> j < k \<longrightarrow> body j = None))
          = (\<exists>k. Suc i \<le> k \<and> k < hi \<and> body k = Some r
               \<and> (\<forall>j. Suc i \<le> j \<and> j < k \<longrightarrow> body j = None))"
      proof
        assume "\<exists>k. i \<le> k \<and> k < hi \<and> body k = Some r \<and> (\<forall>j. i \<le> j \<and> j < k \<longrightarrow> body j = None)"
        then obtain k where k: "i \<le> k" "k < hi" "body k = Some r"
            "\<forall>j. i \<le> j \<and> j < k \<longrightarrow> body j = None"
          by blast
        from k(3) None have "k \<noteq> i" by auto
        with k(1) have "Suc i \<le> k" by simp
        with k show "\<exists>k. Suc i \<le> k \<and> k < hi \<and> body k = Some r
               \<and> (\<forall>j. Suc i \<le> j \<and> j < k \<longrightarrow> body j = None)"
          by (intro exI [of _ k]) simp
      next
        assume "\<exists>k. Suc i \<le> k \<and> k < hi \<and> body k = Some r
               \<and> (\<forall>j. Suc i \<le> j \<and> j < k \<longrightarrow> body j = None)"
        then obtain k where k: "Suc i \<le> k" "k < hi" "body k = Some r"
            "\<forall>j. Suc i \<le> j \<and> j < k \<longrightarrow> body j = None"
          by blast
        have "body j = None" if "i \<le> j \<and> j < k" for j
        proof (cases "j = i")
          case True
          with None show ?thesis by simp
        next
          case False
          with that have "Suc i \<le> j \<and> j < k" by simp
          with k(4) show ?thesis by blast
        qed
        with k show "\<exists>k. i \<le> k \<and> k < hi \<and> body k = Some r
            \<and> (\<forall>j. i \<le> j \<and> j < k \<longrightarrow> body j = None)"
          by (intro exI [of _ k]) simp
      qed
      with True None "1.IH" show ?thesis
        by (simp add: for_first.simps [of i hi body])
    qed
  qed
qed

lemma nonEmptyCount_le: "nonEmptyCount row \<le> length row"
  by (simp add: nonEmptyCount_def)

lemma stringCellCount_le: "stringCellCount row \<le> nonEmptyCount row"
proof -
  have "filter (\<lambda>c. typeof c = TString \<and> c \<noteq> CStr []) row
      = filter (\<lambda>c. typeof c = TString) (filter (\<lambda>c. c \<noteq> CStr []) row)"
    by (simp add: conj_commute)
  then show ?thesis
    by (simp add: stringCellCount_def nonEmptyCount_def del: filter_filter)
qed

lemma ratio_gt:
  assumes "0 < n"
  shows "((of_nat a / of_nat n :: rat) * 100 > 65) = (65 * n < 100 * a)"
proof -
  have pos: "(0::rat) < of_nat n" using assms by simp
  have "((of_nat a / of_nat n :: rat) * 100 > 65) = ((65::rat) * of_nat n < 100 * of_nat a)"
    using pos by (simp add: pos_less_divide_eq mult.commute)
  also have "\<dots> = ((of_nat (65 * n) :: rat) < of_nat (100 * a))" by simp
  also have "\<dots> = (65 * n < 100 * a)" by (simp only: of_nat_less_iff)
  finally show ?thesis .
qed

lemma half_lt:
  assumes "0 < n"
  shows "((of_nat a / of_nat n :: rat) > 1 / 2) = (n < 2 * a)"
proof -
  have pos: "(0::rat) < of_nat n" using assms by simp
  have "((of_nat a / of_nat n :: rat) > 1 / 2) = ((of_nat n :: rat) < 2 * of_nat a)"
    using pos by (simp add: pos_less_divide_eq field_simps)
  also have "\<dots> = ((of_nat n :: rat) < of_nat (2 * a))" by simp
  also have "\<dots> = (n < 2 * a)" by (simp only: of_nat_less_iff)
  finally show ?thesis .
qed

lemma avg_pos:
  assumes "0 < n"
  shows "((of_nat a / of_nat n :: rat) > 0) = (0 < a)"
  using assms by (simp add: zero_less_divide_iff)

lemma avg_lt:
  assumes "0 < n"
  shows "((of_nat a / of_nat n :: rat) < 30) = (a < 30 * n)"
proof -
  have pos: "(0::rat) < of_nat n" using assms by simp
  have "((of_nat a / of_nat n :: rat) < 30) = ((of_nat a :: rat) < 30 * of_nat n)"
    using pos by (simp add: pos_divide_less_eq)
  also have "\<dots> = ((of_nat a :: rat) < of_nat (30 * n))" by simp
  also have "\<dots> = (a < 30 * n)" by (simp only: of_nat_less_iff)
  finally show ?thesis .
qed

lemma isLikelyHeader_qualifies:
  assumes "3 \<le> nonEmptyCount row"
  shows "isLikelyHeader row = qualifiesAsHeader row"
proof (cases "3 \<le> stringCellCount row")
  case False
  then show ?thesis
    by (simp add: isLikelyHeader_def qualifiesAsHeader_def)
next
  case True
  have n: "0 < nonEmptyCount row" using assms by simp
  have w: "0 < max 1 (length row)" by simp
  have wl: "max 1 (length row) = length row"
    using assms nonEmptyCount_le [of row] by simp
  have s: "0 < max 1 (stringCellCount row)" by simp
  have sl: "max 1 (stringCellCount row) = stringCellCount row"
    using True by simp
  have a: "(stringPercent row > 65) = (65 * nonEmptyCount row < 100 * stringCellCount row)"
    unfolding stringPercent_def by (rule ratio_gt [OF n])
  have "(columnsWithValues row > 1 / 2) = (max 1 (length row) < 2 * nonEmptyCount row)"
    unfolding columnsWithValues_def by (rule half_lt [OF w])
  then have b: "(columnsWithValues row > 1 / 2) = (length row < 2 * nonEmptyCount row)"
    unfolding wl .
  have "(avgStringLength row > 0) = (0 < stringLengthSum row)"
    unfolding avgStringLength_def by (rule avg_pos [OF s])
  then have c: "(avgStringLength row > 0) = (0 < stringLengthSum row)" .
  have "(avgStringLength row < 30) = (stringLengthSum row < 30 * max 1 (stringCellCount row))"
    unfolding avgStringLength_def by (rule avg_lt [OF s])
  then have d: "(avgStringLength row < 30) = (stringLengthSum row < 30 * stringCellCount row)"
    unfolding sl .
  show ?thesis
    unfolding isLikelyHeader_def qualifiesAsHeader_def a b c d by simp
qed

lemma likelyHeaderAt_candidate:
  assumes "3 \<le> nonEmptyCount (G ! i)"
  shows "likelyHeaderAt G i = (if qualifiesAsHeader (G ! i) then Some i else None)"
  using assms by (simp add: likelyHeaderAt_def Let_def isLikelyHeader_qualifies)

lemma likelyHeaderAt_None_iff:
  "likelyHeaderAt G j = None \<longleftrightarrow> \<not> (3 \<le> nonEmptyCount (G ! j) \<and> qualifiesAsHeader (G ! j))"
proof (cases "3 \<le> nonEmptyCount (G ! j)")
  case True
  then show ?thesis
    by (simp add: likelyHeaderAt_candidate)
next
  case False
  then show ?thesis
    by (simp add: likelyHeaderAt_def Let_def)
qed

lemma likelyHeaderAt_Some: "likelyHeaderAt G j = Some r \<Longrightarrow> r = j"
  by (auto simp: likelyHeaderAt_def Let_def split: if_splits)


lemma first_loop_result:
  assumes "i < min 15 (length G)" and "3 \<le> nonEmptyCount (G ! i)"
    and "\<forall>j < i. \<not> (3 \<le> nonEmptyCount (G ! j) \<and> qualifiesAsHeader (G ! j))"
  shows "(for_first 0 (min 15 (length G)) (likelyHeaderAt G) = Some i) = qualifiesAsHeader (G ! i)"
proof
  assume "for_first 0 (min 15 (length G)) (likelyHeaderAt G) = Some i"
  then obtain k where k: "likelyHeaderAt G k = Some i"
    unfolding for_first_Some_iff by blast
  then have "k = i" using likelyHeaderAt_Some by blast
  with k assms(2) show "qualifiesAsHeader (G ! i)"
    by (simp add: likelyHeaderAt_candidate split: if_splits)
next
  assume q: "qualifiesAsHeader (G ! i)"
  have "likelyHeaderAt G i = Some i"
    using assms(2) q by (simp add: likelyHeaderAt_candidate)
  moreover have "\<forall>j. 0 \<le> j \<and> j < i \<longrightarrow> likelyHeaderAt G j = None"
    using assms(3) by (simp add: likelyHeaderAt_None_iff)
  ultimately show "for_first 0 (min 15 (length G)) (likelyHeaderAt G) = Some i"
    unfolding for_first_Some_iff using assms(1) by blast
qed

lemma first_loop_decides:
  assumes "for_first 0 (min 15 (length G)) (likelyHeaderAt G) = Some i"
  shows "detectHeaderRow G = i"
proof -
  from assms have "G \<noteq> []"
    by (auto simp: for_first.simps [of 0 0])
  with assms show ?thesis
    by (simp add: detectHeaderRow_def)
qed

lemmas row_eval = nonEmptyCount_def stringCellCount_def numberCellCount_def
  stringLengthSum_def js_def

lemma report_sheet_rows:
  "length report_sheet = 3"
  "nonEmptyCount (report_sheet ! 0) = 1"
  "nonEmptyCount (report_sheet ! Suc 0) = 4"
  "qualifiesAsHeader (report_sheet ! Suc 0)"
  by (simp_all add: report_sheet_def qualifiesAsHeader_def row_eval)

text \<open>
  C2. In the first stage of header detection, a candidate row (one of the first 15 rows,
  with at least three non-empty cells, no earlier candidate having qualified) is accepted
  as the header row exactly when it has at least three string cells, a string percentage
  above 65, a non-empty to width ratio above one half and an average string length
  strictly between 0 and 30. Nothing is asked of the row below: its check is evidence
  only and both of its outcomes return the row. The detected header row of the sheet
  with a title row, the row Name, Age, Email, Zip and a data row is row 1.
\<close>

theorem header_row_accepted:
  assumes "i < min 15 (length G)" and "3 \<le> nonEmptyCount (G ! i)"
    and "\<forall>j < i. \<not> (3 \<le> nonEmptyCount (G ! j) \<and> qualifiesAsHeader (G ! j))"
  shows "((for_first 0 (min 15 (length G)) (likelyHeaderAt G) = Some i)
            = qualifiesAsHeader (G ! i))
       \<and> (qualifiesAsHeader (G ! i) \<longrightarrow> detectHeaderRow G = i)
       \<and> detectHeaderRow report_sheet = 1"
proof (intro conjI impI)
  show "(for_first 0 (min 15 (length G)) (likelyHeaderAt G) = Some i) = qualifiesAsHeader (G ! i)"
    using assms by (rule first_loop_result)
  then show "detectHeaderRow G = i" if "qualifiesAsHeader (G ! i)"
    using that by (simp add: first_loop_decides)
  have "for_first 0 (min 15 (length report_sheet)) (likelyHeaderAt report_sheet) = Some 1"
    by (subst first_loop_result) (simp_all add: report_sheet_rows)
  then show "detectHeaderRow report_sheet = 1"
    by (rule first_loop_decides)
qed

theorem header_row_accepted_witness:
  "1 < min 15 (length report_sheet) \<and> 3 \<le> nonEmptyCount (report_sheet ! 1)
   \<and> \<not> 3 \<le> nonEmptyCount (report_sheet ! 0)
   \<and> qualifiesAsHeader (report_sheet ! 1)
   \<and> for_first 0 (min 15 (length report_sheet)) (likelyHeaderAt report_sheet) = Some 1
   \<and> detectHeaderRow report_sheet = 1"
proof -
  have a: "1 < min 15 (length report_sheet)"
    by (simp add: report_sheet_rows)
  have b: "3 \<le> nonEmptyCount (report_sheet ! 1)"
    by (simp add: report_sheet_rows)
  have z: "\<not> 3 \<le> nonEmptyCount (report_sheet ! 0)"
    by (simp add: report_sheet_rows)
  then have c: "\<forall>j < 1. \<not> (3 \<le> nonEmptyCount (report_sheet ! j)
      \<and> qualifiesAsHeader (report_sheet ! j))"
    by simp
  have q: "qualifiesAsHeader (report_sheet ! 1)"
    by (simp add: report_sheet_rows)
  from header_row_accepted [OF a b c] q
  have "for_first 0 (min 15 (length report_sheet)) (likelyHeaderAt report_sheet) = Some 1"
    and "detectHeaderRow report_sheet = 1"
    by blast+
  with a b z q show ?thesis
    by blast
qed

section \<open>Row filters\<close>

lemma every_all: "every p xs = (\<forall>x \<in> set xs. p x)"
  by (induction xs) simp_all

lemma applyFilters_filter:
  "applyFilters rt data fs = filter (\<lambda>row. \<forall>f \<in> set fs. filterAdmits rt row f) data"
  by (cases data; cases fs) (simp_all add: applyFilters_def every_all)

lemma applyFilters_same_set:
  "set fs = set fs' \<Longrightarrow> applyFilters rt data fs = applyFilters rt data fs'"
  by (simp add: applyFilters_filter)

lemma missing_cell_rejected:
  "obj_get row (column f) = None \<or> obj_get row (column f) = Some (Prim CNull) \<Longrightarrow>
   \<not> filterAdmits rt row f"
  by (auto simp: filterAdmits_def)

lemma num_le_NaN: "num_le a NaN = False"
  by (cases a) (simp_all add: num_le_def)

lemma between_present:
  assumes "operation f = Op_between"
    and "obj_get row (column f) = Some cv" and "cv \<noteq> Prim CNull"
  shows "filterAdmits rt row f =
     (isArray (fvalue f) \<and> num_ge (prop_Number rt cv) (element_Number rt (fvalue f) 0)
        \<and> num_le (prop_Number rt cv) (element_Number rt (fvalue f) 1))"
proof (cases cv)
  case (Prim c)
  with assms show ?thesis
    by (cases c) (simp_all add: filterAdmits_def Let_def)
next
  case (Member name)
  with assms show ?thesis
    by (simp add: filterAdmits_def Let_def)
qed

lemma between_open_rejected:
  assumes "operation f = Op_between"
    and "\<not> isArray (fvalue f) \<or> operand_length (fvalue f) < 2"
  shows "\<not> filterAdmits rt row f"
proof (cases "obj_get row (column f)")
  case None
  then show ?thesis by (simp add: missing_cell_rejected)
next
  case (Some cv)
  show ?thesis
  proof (cases "cv = Prim CNull")
    case True
    with Some show ?thesis by (simp add: missing_cell_rejected)
  next
    case False
    have "\<not> (isArray (fvalue f) \<and> num_ge (prop_Number rt cv) (element_Number rt (fvalue f) 0)
        \<and> num_le (prop_Number rt cv) (element_Number rt (fvalue f) 1))"
      using assms(2) by (cases "fvalue f") (simp_all add: num_le_NaN)
    then show ?thesis
      unfolding between_present [OF assms(1) Some False] .
  qed
qed

lemma dateRange_open_admitted:
  assumes "operation f = Op_dateRange" and "dateRange_bound_absent (fvalue f)"
    and "obj_get row (column f) = Some cv" and "cv \<noteq> Prim CNull"
  shows "filterAdmits rt row f"
proof (cases cv)
  case (Prim c)
  with assms show ?thesis
    by (cases c; cases "fvalue f") (simp_all add: filterAdmits_def)
next
  case (Member name)
  with assms show ?thesis
    by (cases "fvalue f") (simp_all add: filterAdmits_def)
qed

text \<open>
  C5, as the code has it. The filtered rows are the rows that every filter admits. A
  filter rejects a row whose target cell is undefined or null. A date range filter with
  an absent bound admits every row whose target cell is present. A between filter has no
  such pass-through: it rejects the row when its operand is not an array or has fewer
  than two elements, and on a present cell it holds exactly when the operand is an array
  and the number of the cell lies between its first two elements, read as numbers.
\<close>

theorem filters_admit_conjunction:
  "applyFilters rt data fs = filter (\<lambda>row. \<forall>f \<in> set fs. filterAdmits rt row f) data
   \<and> (obj_get row (column f) = None \<or> obj_get row (column f) = Some (Prim CNull) \<longrightarrow>
        \<not> filterAdmits rt row f)
   \<and> (operation f = Op_dateRange \<and> dateRange_bound_absent (fvalue f)
        \<and> obj_get row (column f) = Some cv \<and> cv \<noteq> Prim CNull \<longrightarrow> filterAdmits rt row f)
   \<and> (operation f = Op_between
        \<and> (\<not> isArray (fvalue f) \<or> operand_length (fvalue f) < 2) \<longrightarrow>
        \<not> filterAdmits rt row f)
   \<and> (operation f = Op_between \<and> obj_get row (column f) = Some cv \<and> cv \<noteq> Prim CNull \<longrightarrow>
        filterAdmits rt row f =
          (isArray (fvalue f) \<and> num_ge (prop_Number rt cv) (element_Number rt (fvalue f) 0)
             \<and> num_le (prop_Number rt cv) (element_Number rt (fvalue f) 1)))"
  using applyFilters_filter missing_cell_rejected between_open_rejected dateRange_open_admitted
    between_present
  by blast

lemmas filter_eval = filterAdmits_def obj_get_def objectPrototypeNames_def protoKey_def js_def

text \<open>
  A column named after an inherited member is read as that member, which is not
  undefined: the filter is evaluated on it.
\<close>

lemma inherited_member_admitted:
  "obj_get age_row (column inherited_column) = Some (Member (js ''constructor''))
   \<and> filterAdmits example_runtime age_row inherited_column"
  by (simp add: inherited_column_def age_row_def filter_eval)

theorem filters_admit_conjunction_witness:
  "obj_get age_row (column missing_column) = None
   \<and> operation open_dateRange = Op_dateRange \<and> dateRange_bound_absent (fvalue open_dateRange)
   \<and> obj_get age_row (column open_dateRange) = Some (Prim (CStr (js ''2020-01-02'')))
   \<and> operation open_between = Op_between \<and> operand_length (fvalue open_between) < 2
   \<and> operation range_between = Op_between \<and> \<not> isArray (fvalue range_between)
   \<and> operation blank_between = Op_between
   \<and> obj_get age_row (column blank_between) = Some (Prim (CNum 7))
   \<and> \<not> filterAdmits example_runtime age_row missing_column
   \<and> filterAdmits example_runtime age_row open_dateRange
   \<and> \<not> filterAdmits example_runtime age_row open_between
   \<and> \<not> filterAdmits example_runtime age_row range_between
   \<and> filterAdmits example_runtime age_row blank_between
   \<and> applyFilters example_runtime [age_row] [open_dateRange] = [age_row]
   \<and> applyFilters example_runtime [age_row] [open_dateRange, missing_column] = []"
proof -
  have m: "obj_get age_row (column missing_column) = None"
    by (simp add: age_row_def missing_column_def filter_eval)
  have d: "operation open_dateRange = Op_dateRange" "dateRange_bound_absent (fvalue open_dateRange)"
    "obj_get age_row (column open_dateRange) = Some (Prim (CStr (js ''2020-01-02'')))"
    "Prim (CStr (js ''2020-01-02'')) \<noteq> Prim CNull"
    by (simp_all add: age_row_def open_dateRange_def filter_eval)
  have b: "operation open_between = Op_between" "operand_length (fvalue open_between) < 2"
    by (simp_all add: open_between_def)
  have g: "operation range_between = Op_between" "\<not> isArray (fvalue range_between)"
    by (simp_all add: range_between_def)
  have k: "operation blank_between = Op_between"
    "obj_get age_row (column blank_between) = Some (Prim (CNum 7))"
    "Prim (CNum 7) \<noteq> Prim CNull"
    by (simp_all add: age_row_def blank_between_def filter_eval)
  have n: "isArray (fvalue blank_between)
     \<and> num_ge (prop_Number example_runtime (Prim (CNum 7)))
         (element_Number example_runtime (fvalue blank_between) 0)
     \<and> num_le (prop_Number example_runtime (Prim (CNum 7)))
         (element_Number example_runtime (fvalue blank_between) 1)"
    by (simp add: blank_between_def example_runtime_def num_ge_def num_le_def js_def
        digits_value_def is_digit_def digit_ranges_def)
  note t = filters_admit_conjunction [of example_runtime _ _ age_row]
  from t [of "[]" "[]" missing_column "Prim CNull"] m
  have r1: "\<not> filterAdmits example_runtime age_row missing_column"
    by blast
  from t [of "[]" "[]" open_dateRange "Prim (CStr (js ''2020-01-02''))"] d
  have r2: "filterAdmits example_runtime age_row open_dateRange"
    by blast
  from t [of "[]" "[]" open_between "Prim CNull"] b
  have r3: "\<not> filterAdmits example_runtime age_row open_between"
    by blast
  from t [of "[]" "[]" range_between "Prim CNull"] g
  have r4: "\<not> filterAdmits example_runtime age_row range_between"
    by blast
  from t [of "[]" "[]" blank_between "Prim (CNum 7)"] k n
  have r5: "filterAdmits example_runtime age_row blank_between"
    by blast
  from t [of "[age_row]" "[open_dateRange]" open_between "Prim CNull"] r2
  have r6: "applyFilters example_runtime [age_row] [open_dateRange] = [age_row]"
    by simp
  from t [of "[age_row]" "[open_dateRange, missing_column]" open_between "Prim CNull"] r1
  have r7: "applyFilters example_runtime [age_row] [open_dateRange, missing_column] = []"
    by simp
  from m d b g k r1 r2 r3 r4 r5 r6 r7 show ?thesis
    by blast
qed

theorem open_between_rejects_counterexample:
  "operation open_between = Op_between \<and> isArray (fvalue open_between)
   \<and> operand_length (fvalue open_between) < 2
   \<and> obj_get age_row (column open_between) = Some (Prim (CNum 7))
   \<and> \<not> filterAdmits example_runtime age_row open_between"
  by (simp add: open_between_def age_row_def filter_eval num_le_def)

text \<open>
  C8. Filtering with two filters gives the same rows in either order of the filters.
\<close>

theorem filters_commute:
  "applyFilters rt data [a, b] = applyFilters rt data [b, a]"
proof -
  have "set [a, b] = set [b, a]"
    by auto
  then show ?thesis
    by (rule applyFilters_same_set)
qed

section \<open>Loading the stored presets\<close>

text \<open>
  C9, as the code has it. When the stored text does not parse, the error is logged and
  the preset list becomes the empty list; nothing is thrown. When the stored text parses,
  the parsed value becomes the preset list as a whole: no entry is checked or skipped.
\<close>

theorem stored_presets_loaded_whole:
  assumes "storedPresets st = Some s" and "s \<noteq> []"
  shows "(parse codec s = Inl e \<longrightarrow>
            loadPresets codec now1 now2 st
              = st\<lparr>presets := JArr [],
                    consoleErrors := consoleErrors st @ [js ''Error loading presets:'']\<rparr>)
       \<and> (parse codec s = Inr parsed \<longrightarrow> loadPresets codec now1 now2 st = st\<lparr>presets := parsed\<rparr>)"
  using assms by (simp add: loadPresets_def)

theorem stored_presets_loaded_whole_witness:
  "storedPresets corrupt_preset_store = Some (js ''{broken'') \<and> js ''{broken'' \<noteq> []
   \<and> parse example_codec (js ''{broken'') = Inl SyntaxError
   \<and> presets (loadPresets example_codec [] [] corrupt_preset_store) = JArr []
   \<and> storedPresets null_preset_store = Some (js ''[null]'') \<and> js ''[null]'' \<noteq> []
   \<and> parse example_codec (js ''[null]'') = Inr (JArr [JNull])
   \<and> presets (loadPresets example_codec [] [] null_preset_store) = JArr [JNull]"
proof -
  have a: "storedPresets corrupt_preset_store = Some (js ''{broken'')" "js ''{broken'' \<noteq> []"
    "parse example_codec (js ''{broken'') = Inl SyntaxError"
    by (simp_all add: corrupt_preset_store_def example_codec_def js_def)
  have b: "storedPresets null_preset_store = Some (js ''[null]'')" "js ''[null]'' \<noteq> []"
    "parse example_codec (js ''[null]'') = Inr (JArr [JNull])"
    by (simp_all add: null_preset_store_def example_codec_def js_def)
  from stored_presets_loaded_whole [OF a(1,2), of example_codec SyntaxError "[]" "[]" JNull] a(3)
  have c: "presets (loadPresets example_codec [] [] corrupt_preset_store) = JArr []"
    by simp
  from stored_presets_loaded_whole [OF b(1,2), of example_codec SyntaxError "[]" "[]" "JArr [JNull]"] b(3)
  have d: "presets (loadPresets example_codec [] [] null_preset_store) = JArr [JNull]"
    by simp
  from a b c d show ?thesis
    by blast
qed

theorem malformed_preset_kept_counterexample:
  "presets (loadPresets example_codec [] [] null_preset_store) = JArr [JNull]
   \<and> \<not> wellFormedPreset JNull"
  by (simp add: loadPresets_def example_codec_def null_preset_store_def js_def)

section \<open>Sanitizing ZIP codes with extension\<close>

lemma matches_Seq:
  "matches (Seq r s) w = (\<exists>u v. w = u @ v \<and> matches r u \<and> matches s v)"
proof (induction w arbitrary: r s)
  case Nil
  show ?case by simp
next
  case (Cons c w)
  show ?case
  proof (cases "nullable r")
    case True
    have "matches (Seq r s) (c # w)
        = ((\<exists>u v. w = u @ v \<and> matches (deriv c r) u \<and> matches s v) \<or> matches (deriv c s) w)"
      using True by (simp add: matches_Alt Cons.IH)
    also have "\<dots> = (\<exists>u v. c # w = u @ v \<and> matches r u \<and> matches s v)"
    proof
      assume "(\<exists>u v. w = u @ v \<and> matches (deriv c r) u \<and> matches s v) \<or> matches (deriv c s) w"
      then show "\<exists>u v. c # w = u @ v \<and> matches r u \<and> matches s v"
      proof
        assume "\<exists>u v. w = u @ v \<and> matches (deriv c r) u \<and> matches s v"
        then obtain u v where "w = u @ v" "matches (deriv c r) u" "matches s v"
          by blast
        then have "c # w = (c # u) @ v \<and> matches r (c # u) \<and> matches s v"
          by simp
        then show ?thesis by blast
      next
        assume "matches (deriv c s) w"
        then have "c # w = [] @ (c # w) \<and> matches r [] \<and> matches s (c # w)"
          using True by simp
        then show ?thesis by blast
      qed
    next
      assume "\<exists>u v. c # w = u @ v \<and> matches r u \<and> matches s v"
      then obtain u v where uv: "c # w = u @ v" "matches r u" "matches s v"
        by blast
      show "(\<exists>u v. w = u @ v \<and> matches (deriv c r) u \<and> matches s v) \<or> matches (deriv c s) w"
      proof (cases u)
        case Nil
        with uv show ?thesis by auto
      next
        case (Cons a u')
        with uv have "w = u' @ v \<and> matches (deriv c r) u' \<and> matches s v"
          by simp
        then show ?thesis by blast
      qed
    qed
    finally show ?thesis .
  next
    case False
    have "matches (Seq r s) (c # w)
        = (\<exists>u v. w = u @ v \<and> matches (deriv c r) u \<and> matches s v)"
      using False by (simp add: Cons.IH)
    also have "\<dots> = (\<exists>u v. c # w = u @ v \<and> matches r u \<and> matches s v)"
    proof
      assume "\<exists>u v. w = u @ v \<and> matches (deriv c r) u \<and> matches s v"
      then obtain u v where "w = u @ v" "matches (deriv c r) u" "matches s v"
        by blast
      then have "c # w = (c # u) @ v \<and> matches r (c # u) \<and> matches s v"
        by simp
      then show "\<exists>u v. c # w = u @ v \<and> matches r u \<and> matches s v" by blast
    next
      assume "\<exists>u v. c # w = u @ v \<and> matches r u \<and> matches s v"
      then obtain u v where uv: "c # w = u @ v" "matches r u" "matches s v"
        by blast
      have "u \<noteq> []"
        using uv(2) False by auto
      then obtain a u' where "u = a # u'"
        by (cases u) auto
      with uv have "w = u' @ v \<and> matches (deriv c r) u' \<and> matches s v"
        by simp
      then show "\<exists>u v. w = u @ v \<and> matches (deriv c r) u \<and> matches s v" by blast
    qed
    finally show ?thesis .
  qed
qed

lemma matches_Eps: "matches Eps w = (w = [])"
  by (cases w) (simp_all add: matches_Nothing)

lemma matches_Chr: "matches (Chr cl) w = (\<exists>c. w = [c] \<and> in_class cl c)"
  by (cases w) (auto simp: matches_Nothing matches_Eps)

lemma matches_opt: "matches (opt r) w = (matches r w \<or> w = [])"
  by (simp add: opt_def matches_Alt matches_Eps)

lemma matches_rep_class:
  "matches (rep n (Chr cl)) w = (length w = n \<and> (\<forall>c \<in> set w. in_class cl c))"
proof (induction n arbitrary: w)
  case 0
  show ?case by (auto simp: matches_Eps)
next
  case (Suc n)
  have "matches (rep (Suc n) (Chr cl)) w
      = (\<exists>u v. w = u @ v \<and> (\<exists>c. u = [c] \<and> in_class cl c)
           \<and> length v = n \<and> (\<forall>c \<in> set v. in_class cl c))"
    by (simp add: matches_Seq matches_Chr Suc.IH del: matches.simps)
  also have "\<dots> = (length w = Suc n \<and> (\<forall>c \<in> set w. in_class cl c))"
  proof
    assume "\<exists>u v. w = u @ v \<and> (\<exists>c. u = [c] \<and> in_class cl c)
           \<and> length v = n \<and> (\<forall>c \<in> set v. in_class cl c)"
    then show "length w = Suc n \<and> (\<forall>c \<in> set w. in_class cl c)"
      by auto
  next
    assume a: "length w = Suc n \<and> (\<forall>c \<in> set w. in_class cl c)"
    then obtain c v where "w = c # v"
      by (cases w) auto
    with a have "w = [c] @ v \<and> (\<exists>c'. [c] = [c'] \<and> in_class cl c')
           \<and> length v = n \<and> (\<forall>c \<in> set v. in_class cl c)"
      by simp
    then show "\<exists>u v. w = u @ v \<and> (\<exists>c. u = [c] \<and> in_class cl c)
           \<and> length v = n \<and> (\<forall>c \<in> set v. in_class cl c)"
      by blast
  qed
  finally show ?case .
qed

lemma zip_extended_parts:
  "zip_extended s =
     (\<exists>u v. s = u @ 45 # v \<and> length u = 5 \<and> length v = 4
        \<and> (\<forall>c \<in> set u. is_digit c) \<and> (\<forall>c \<in> set v. is_digit c))"
proof
  assume z: "zip_extended s"
  then have len: "length s = 10" and s5: "s ! 5 = 45"
    and d: "\<forall>c \<in> set (take 5 s). is_digit c" "\<forall>c \<in> set (drop 6 s). is_digit c"
    by (simp_all add: zip_extended_def list_all_iff)
  have six: "Suc 5 = 6"
    by simp
  from len have "5 < length s"
    by simp
  then have "s = take 5 s @ s ! 5 # drop (Suc 5) s"
    by (rule id_take_nth_drop)
  then have e: "s = take 5 s @ 45 # drop 6 s"
    unfolding s5 six .
  have "length (take 5 s) = 5" and "length (drop 6 s) = 4"
    using len by simp_all
  with e d show "\<exists>u v. s = u @ 45 # v \<and> length u = 5 \<and> length v = 4
        \<and> (\<forall>c \<in> set u. is_digit c) \<and> (\<forall>c \<in> set v. is_digit c)"
    by blast
next
  assume "\<exists>u v. s = u @ 45 # v \<and> length u = 5 \<and> length v = 4
        \<and> (\<forall>c \<in> set u. is_digit c) \<and> (\<forall>c \<in> set v. is_digit c)"
  then obtain u v where s: "s = u @ 45 # v" and u: "length u = 5" "\<forall>c \<in> set u. is_digit c"
    and v: "length v = 4" "\<forall>c \<in> set v. is_digit c"
    by blast
  have "length s = 10"
    using u v by (simp add: s)
  moreover have "take 5 s = u"
    using u by (simp add: s)
  moreover have "s ! 5 = 45"
    using u(1) nth_append_length [of u 45 v] by (simp add: s)
  moreover have "drop 6 s = v"
    using u by (simp add: s)
  ultimately show "zip_extended s"
    using u v by (simp add: zip_extended_def list_all_iff)
qed

lemma in_digit_class: "in_ranges digit_ranges = is_digit"
  by (rule ext) (simp add: is_digit_def)

lemma matches_lit: "matches (lit ch) w = (w = [of_char ch])"
  by (auto simp: lit_def unit_of_def matches_Chr)

lemma dash_unit: "of_char CHR ''-'' = (45::nat)"
  by simp

lemma zipExtension_shape: "matches zipExtensionPattern s = zip_extended s"
proof -
  have "matches zipExtensionPattern s
      = (\<exists>u w. s = u @ w \<and> (length u = 5 \<and> (\<forall>c \<in> set u. is_digit c))
           \<and> (\<exists>d v. w = d @ v \<and> d = [45] \<and> length v = 4 \<and> (\<forall>c \<in> set v. is_digit c)))"
    by (simp add: zipExtensionPattern_def digit_def matches_Seq matches_rep_class
        in_digit_class matches_lit del: matches.simps)
  also have "\<dots> = zip_extended s"
    unfolding zip_extended_parts by auto
  finally show ?thesis .
qed

lemma is_digit_bounds: "is_digit c = (48 \<le> c \<and> c \<le> 57)"
  by (simp add: is_digit_def digit_ranges_def)

lemma digit_not_space: "is_digit c \<Longrightarrow> \<not> is_space c"
  by (auto simp: is_digit_bounds is_space_def space_ranges_def)

lemma zip_extended_zipPattern:
  assumes "zip_extended s"
  shows "matches zipPattern s"
proof -
  from assms obtain u v where s: "s = u @ 45 # v" and u: "length u = 5" "\<forall>c \<in> set u. is_digit c"
    and v: "length v = 4" "\<forall>c \<in> set v. is_digit c"
    unfolding zip_extended_parts by blast
  have "45 # v = [45] @ v \<and> matches (lit CHR ''-'') [45] \<and> matches (rep 4 digit) v"
    using v by (simp add: matches_lit digit_def matches_rep_class in_digit_class
        del: matches.simps)
  then have "matches (seqs [lit CHR ''-'', rep 4 digit]) (45 # v)"
    unfolding seqs.simps matches_Seq by blast
  then have "matches (opt (seqs [lit CHR ''-'', rep 4 digit])) (45 # v)"
    unfolding matches_opt by blast
  moreover have "matches (rep 5 digit) u"
    using u by (simp add: digit_def matches_rep_class in_digit_class del: matches.simps)
  ultimately show ?thesis
    unfolding zipPattern_def s seqs.simps matches_Seq by blast
qed

lemma zip_extended_units:
  assumes "zip_extended s" and "c \<in> set s"
  shows "is_digit c \<or> c = 45"
  using assms unfolding zip_extended_parts by auto

lemma zip_extended_digits:
  assumes "zip_extended s"
  shows "length (filter is_digit s) = 9" and "take 5 (filter is_digit s) = take 5 s"
proof -
  from assms obtain u v where s: "s = u @ 45 # v" and u: "length u = 5" "\<forall>c \<in> set u. is_digit c"
    and v: "length v = 4" "\<forall>c \<in> set v. is_digit c"
    unfolding zip_extended_parts by blast
  have d: "\<not> is_digit 45"
    by (simp add: is_digit_bounds)
  have f: "filter is_digit s = u @ v"
    using u v d by (simp add: s)
  show "length (filter is_digit s) = 9"
    using u v by (simp add: f)
  show "take 5 (filter is_digit s) = take 5 s"
    using u by (simp add: f s)
qed

lemma zip_extended_trim:
  assumes "zip_extended s"
  shows "js_trim s = s"
proof -
  from assms obtain u v where s: "s = u @ 45 # v" and u: "length u = 5" "\<forall>c \<in> set u. is_digit c"
    and v: "length v = 4" "\<forall>c \<in> set v. is_digit c"
    unfolding zip_extended_parts by blast
  from u obtain a u' where ua: "u = a # u'"
    by (cases u) auto
  from v obtain v' z where vz: "v = v' @ [z]"
    by (cases v rule: rev_cases) auto
  have "\<not> is_space a" and "\<not> is_space z"
    using u v by (simp_all add: ua vz digit_not_space)
  then show ?thesis
    by (simp add: js_trim_def s ua vz)
qed

lemma zip_extended_not_empty: "zip_extended s \<Longrightarrow> s \<noteq> []"
  by (auto simp: zip_extended_parts)

lemma matches_seqs:
  "matches (seqs rs) w = (\<exists>ws. w = concat ws \<and> list_all2 matches rs ws)"
proof (induction rs arbitrary: w rule: seqs.induct)
  case 1
  show ?case by (simp add: matches_Eps del: matches.simps)
next
  case (2 r)
  show ?case
  proof
    assume "matches (seqs [r]) w"
    then have "w = concat [w] \<and> list_all2 matches [r] [w]"
      by simp
    then show "\<exists>ws. w = concat ws \<and> list_all2 matches [r] ws"
      by blast
  next
    assume "\<exists>ws. w = concat ws \<and> list_all2 matches [r] ws"
    then show "matches (seqs [r]) w"
      by (auto simp: list_all2_Cons1 simp del: matches.simps)
  qed
next
  case (3 r r' rs)
  have "matches (seqs (r # r' # rs)) w
      = (\<exists>u v. w = u @ v \<and> matches r u \<and> (\<exists>ws. v = concat ws \<and> list_all2 matches (r' # rs) ws))"
    by (simp add: matches_Seq "3.IH" del: matches.simps)
  also have "\<dots> = (\<exists>ws. w = concat ws \<and> list_all2 matches (r # r' # rs) ws)"
  proof
    assume "\<exists>u v. w = u @ v \<and> matches r u
        \<and> (\<exists>ws. v = concat ws \<and> list_all2 matches (r' # rs) ws)"
    then obtain u ws where "w = concat (u # ws)" "list_all2 matches (r # r' # rs) (u # ws)"
      by auto
    then show "\<exists>ws. w = concat ws \<and> list_all2 matches (r # r' # rs) ws"
      by blast
  next
    assume "\<exists>ws. w = concat ws \<and> list_all2 matches (r # r' # rs) ws"
    then obtain ws where ws: "w = concat ws" "list_all2 matches (r # r' # rs) ws"
      by blast
    then obtain u ws' where "ws = u # ws'" "matches r u" "list_all2 matches (r' # rs) ws'"
      by (auto simp: list_all2_Cons1)
    with ws(1) show "\<exists>u v. w = u @ v \<and> matches r u
        \<and> (\<exists>ws. v = concat ws \<and> list_all2 matches (r' # rs) ws)"
      by auto
  qed
  finally show ?case .
qed

lemma email_has_at:
  assumes "matches emailPattern s"
  shows "64 \<in> set s"
proof -
  from assms obtain w0 w1 w2 w3 w4 where "s = concat [w0, w1, w2, w3, w4]"
    and "matches (lit CHR ''@'') w1"
    unfolding emailPattern_def matches_seqs by (auto simp: list_all2_Cons1 simp del: matches.simps)
  then show ?thesis
    by (simp add: matches_lit del: matches.simps)
qed

lemma currency_symbol_units:
  "in_class (Pos [(163, 163), unit_of CHR ''$'', (8364, 8364), (165, 165)]) c
     = (c = 163 \<or> c = 36 \<or> c = 8364 \<or> c = 165)"
  by (auto simp: unit_of_def)

lemma autoCurrency_has_symbol:
  assumes "matches autoCurrencyPattern s"
  shows "\<exists>c \<in> set s. c = 163 \<or> c = 36 \<or> c = 8364 \<or> c = 165"
proof -
  from assms obtain ws where s: "s = concat ws"
    and "list_all2 matches [Star white, currency_symbol, Star white,
           plus (Chr (Pos (digit_ranges @ [unit_of CHR '','', unit_of CHR ''.'']))),
           Star white] ws"
    unfolding autoCurrencyPattern_def matches_seqs by blast
  then obtain w0 w1 rest where ws: "ws = w0 # w1 # rest" and "matches currency_symbol w1"
    unfolding list_all2_Cons1 by blast
  then obtain c where w1: "w1 = [c]" and "c = 163 \<or> c = 36 \<or> c = 8364 \<or> c = 165"
    unfolding currency_symbol_def matches_Chr currency_symbol_units by blast
  moreover have "c \<in> set s"
    by (simp add: s ws w1)
  ultimately show ?thesis
    by blast
qed

lemma digits_of_rep:
  assumes "matches (rep n digit) w"
  shows "length (filter is_digit w) = n"
  using assms by (simp add: digit_def matches_rep_class in_digit_class del: matches.simps)

lemma phone_has_ten_digits:
  assumes "matches phonePattern s"
  shows "10 \<le> length (filter is_digit s)"
proof -
  from assms obtain ws where s: "s = concat ws"
    and "list_all2 matches
          [opt (seqs [lit CHR ''+'', rep_range 1 3 digit, opt separator]),
           opt (lit CHR ''(''), rep 3 digit, opt (lit CHR '')''), opt separator,
           rep 3 digit, opt separator, rep 4 digit] ws"
    unfolding phonePattern_def matches_seqs by blast
  then obtain w0 w1 w2 w3 w4 w5 w6 w7 where ws: "ws = [w0, w1, w2, w3, w4, w5, w6, w7]"
    and d: "matches (rep 3 digit) w2" "matches (rep 3 digit) w5" "matches (rep 4 digit) w7"
    unfolding list_all2_Cons1 by blast
  show ?thesis
    unfolding s ws using digits_of_rep [OF d(1)] digits_of_rep [OF d(2)] digits_of_rep [OF d(3)]
    by simp
qed

lemma zip_extended_detection:
  assumes "zip_extended s"
  shows "\<not> matches emailPattern s" and "\<not> matches autoCurrencyPattern s"
    and "\<not> matches phonePattern s" and "matches zipPattern s"
proof -
  have units: "is_digit c \<or> c = 45" if "c \<in> set s" for c
    using assms that by (rule zip_extended_units)
  show "\<not> matches emailPattern s"
  proof
    assume "matches emailPattern s"
    then have "64 \<in> set s" by (rule email_has_at)
    then have "is_digit 64 \<or> (64::nat) = 45" by (rule units)
    then show False by (simp add: is_digit_bounds)
  qed
  show "\<not> matches autoCurrencyPattern s"
  proof
    assume "matches autoCurrencyPattern s"
    then obtain c where c: "c \<in> set s" "c = 163 \<or> c = 36 \<or> c = 8364 \<or> c = 165"
      using autoCurrency_has_symbol by blast
    from c(1) have "is_digit c \<or> c = 45" by (rule units)
    with c(2) show False by (auto simp: is_digit_bounds)
  qed
  show "\<not> matches phonePattern s"
  proof
    assume "matches phonePattern s"
    then have "10 \<le> length (filter is_digit s)" by (rule phone_has_ten_digits)
    with zip_extended_digits(1) [OF assms] show False by simp
  qed
  show "matches zipPattern s"
    using assms by (rule zip_extended_zipPattern)
qed

lemma slice_prefix: "js_slice s 0 (int n) = take n s"
  by (simp add: js_slice_def slice_pos_def Let_def min_def)

lemma zip_extended_truncated:
  assumes "zip_extended s"
  shows "page_formatZipCode s True = take 5 s"
proof -
  have "js_slice (filter is_digit s) 0 5 = take 5 (filter is_digit s)"
    using slice_prefix [of "filter is_digit s" 5] by simp
  then have a: "js_slice (filter is_digit s) 0 5 = take 5 s"
    using zip_extended_digits(2) [OF assms] by simp
  have "length s = 10"
    using assms by (auto simp: zip_extended_parts)
  then have b: "padEnd (take 5 s) 5 (js ''0'') = take 5 s"
    by (simp add: padEnd_def)
  show ?thesis
    unfolding page_formatZipCode_def keep_digits Let_def a b by simp
qed

lemma zip_extended_prefix_plain:
  assumes "zip_extended s"
  shows "\<not> zip_extended (take 5 s)"
proof
  assume "zip_extended (take 5 s)"
  then obtain u v where "take 5 s = u @ 45 # v" and "length u = 5" and "length v = 4"
    unfolding zip_extended_parts by blast
  then have "length (take 5 s) = 10"
    by simp
  then show False by simp
qed

lemma sanitizeCell_zip_extended:
  assumes "zip_extended s" and "sanitizeZipCodes opts"
    and "key \<in> set selected" and "\<not> sanitizationDisabled settings key"
    and "columnTypeOf settings key = None \<or> columnTypeOf settings key = Some T_auto
         \<or> columnTypeOf settings key = Some T_zipcode"
  shows "sanitizeCell rt opts settings selected key (CStr s) = CStr (take 5 s)"
proof -
  note d = zip_extended_detection [OF assms(1)]
  have t: "js_trim s \<noteq> []"
    using assms(1) by (simp add: zip_extended_trim zip_extended_not_empty)
  have z: "page_formatZipCode s (sanitizeZipCodes opts) = take 5 s"
    using assms(1,2) by (simp add: zip_extended_truncated)
  from assms(5) show ?thesis
  proof (elim disjE)
    assume "columnTypeOf settings key = None"
    then show ?thesis
      using assms(3,4) d t z by (simp add: sanitizeCell_def del: matches.simps)
  next
    assume "columnTypeOf settings key = Some T_auto"
    then show ?thesis
      using assms(3,4) d t z by (simp add: sanitizeCell_def del: matches.simps)
  next
    assume "columnTypeOf settings key = Some T_zipcode"
    then show ?thesis
      using assms(3,4) d t z by (simp add: sanitizeCell_def del: matches.simps)
  qed
qed

lemma both_passes_zip_extended:
  assumes "zip_extended s" and "sanitizeZipCodes opts"
    and "key \<in> set selected" and "\<not> sanitizationDisabled settings key"
    and "columnTypeOf settings key = None \<or> columnTypeOf settings key = Some T_auto
         \<or> columnTypeOf settings key = Some T_zipcode"
  shows "stripZipExtension settings selected key
           (sanitizeCell rt opts settings selected key (CStr s)) = CStr (take 5 s)"
proof -
  have "\<not> matches zipExtensionPattern (take 5 s)"
    unfolding zipExtension_shape using assms(1) by (rule zip_extended_prefix_plain)
  then show ?thesis
    unfolding sanitizeCell_zip_extended [OF assms]
    by (simp add: stripZipExtension_def del: matches.simps)
qed

lemma forEachKey_nth:
  "j < length (entries row) \<Longrightarrow>
   entries (forEachKey f row) ! j
     = (fst (entries row ! j), f (fst (entries row ! j)) (snd (entries row ! j)))"
  by (simp add: forEachKey_def case_prod_unfold)

lemma forEachKey_length: "length (entries (forEachKey f row)) = length (entries row)"
  by (simp add: forEachKey_def)

lemma jsonCopy_entries: "entries (jsonCopy row) = entries row"
  by (simp add: jsonCopy_def)

text \<open>
  C6, as the code has it. With the global ZIP option on, a string cell of the shape of
  five digits, a hyphen and four digits is cut down to its first five digits in every
  column that is selected, has sanitization enabled and has no assigned type, or the type
  auto or zipcode. A column with another assigned type is left to the formatting of that
  type and is not cut.
\<close>

theorem zip_extension_stripped:
  assumes "sanitizeZipCodes opts"
    and "i < length rows" and "j < length (entries (rows ! i))"
    and "entries (rows ! i) ! j = (key, CStr s)"
    and "matches zipExtensionPattern s"
    and "key \<in> set selected" and "\<not> sanitizationDisabled settings key"
    and "columnTypeOf settings key = None \<or> columnTypeOf settings key = Some T_auto
         \<or> columnTypeOf settings key = Some T_zipcode"
  shows "entries (sanitizeData rt opts settings selected rows ! i) ! j
     = (key, CStr (take 5 s))"
proof -
  have z: "zip_extended s"
    using assms(5) by (simp only: zipExtension_shape)
  have "sanitizeData rt opts settings selected rows ! i
      = forEachKey (stripZipExtension settings selected)
          (forEachKey (sanitizeCell rt opts settings selected) (jsonCopy (rows ! i)))"
    using assms(1,2) by (auto simp: sanitizeData_def Let_def)
  then have "entries (sanitizeData rt opts settings selected rows ! i) ! j
      = (key, stripZipExtension settings selected key
                (sanitizeCell rt opts settings selected key (CStr s)))"
    using assms(3,4) by (simp add: forEachKey_nth forEachKey_length jsonCopy_entries)
  then show ?thesis
    by (simp only: both_passes_zip_extended [OF z assms(1,6,7,8)])
qed

lemma extended_zip_matches: "matches zipExtensionPattern (js ''12345-6789'')"
  by (simp add: zipExtensionPattern_def js_def regex_syntax regex_run)

theorem zip_extension_stripped_witness:
  "sanitizeZipCodes zip_only_options \<and> 0 < length zip_rows
   \<and> 0 < length (entries (zip_rows ! 0))
   \<and> entries (zip_rows ! 0) ! 0 = (js ''zip'', CStr (js ''12345-6789''))
   \<and> matches zipExtensionPattern (js ''12345-6789'')
   \<and> js ''zip'' \<in> set [js ''zip'', js ''name'']
   \<and> \<not> sanitizationDisabled no_settings (js ''zip'')
   \<and> columnTypeOf no_settings (js ''zip'') = None
   \<and> entries
        (sanitizeData example_runtime zip_only_options no_settings [js ''zip'', js ''name'']
           zip_rows ! 0) ! 0 = (js ''zip'', CStr (js ''12345''))"
proof -
  have a: "sanitizeZipCodes zip_only_options"
    by (simp add: zip_only_options_def)
  have b: "0 < length zip_rows" "0 < length (entries (zip_rows ! 0))"
    "entries (zip_rows ! 0) ! 0 = (js ''zip'', CStr (js ''12345-6789''))"
    by (simp_all add: zip_rows_def)
  have c: "js ''zip'' \<in> set [js ''zip'', js ''name'']"
    by simp
  have d: "\<not> sanitizationDisabled no_settings (js ''zip'')"
    "columnTypeOf no_settings (js ''zip'') = None"
    by (simp_all add: sanitizationDisabled_def columnTypeOf_def no_settings_def)
  have e: "columnTypeOf no_settings (js ''zip'') = None
      \<or> columnTypeOf no_settings (js ''zip'') = Some T_auto
      \<or> columnTypeOf no_settings (js ''zip'') = Some T_zipcode"
    using d(2) by simp
  have f: "take 5 (js ''12345-6789'') = js ''12345''"
    by (simp add: js_def)
  from zip_extension_stripped [OF a b(1) b(2) b(3) extended_zip_matches c d(1) e,
      of example_runtime]
  have "entries
        (sanitizeData example_runtime zip_only_options no_settings [js ''zip'', js ''name'']
           zip_rows ! 0) ! 0 = (js ''zip'', CStr (js ''12345''))"
    unfolding f .
  with a b c d extended_zip_matches show ?thesis
    by blast
qed

theorem typed_column_keeps_extension_counterexample:
  "sanitizeZipCodes zip_only_options
   \<and> columnTypeOf text_typed_settings (js ''zip'') = Some T_text
   \<and> matches zipExtensionPattern (js ''12345-6789'')
   \<and> sanitizeData example_runtime zip_only_options text_typed_settings
         [js ''zip'', js ''name''] zip_rows = zip_rows"
proof -
  have a: "sanitizeZipCodes zip_only_options" "\<not> removeSpecialChars zip_only_options"
    by (simp_all add: zip_only_options_def)
  have n: "js ''name'' \<noteq> js ''zip''"
    by (simp add: js_def)
  have b: "columnTypeOf text_typed_settings (js ''zip'') = Some T_text"
    "columnTypeOf text_typed_settings (js ''name'') = None"
    "\<not> sanitizationDisabled text_typed_settings (js ''zip'')"
    "\<not> sanitizationDisabled text_typed_settings (js ''name'')"
    using n by (simp_all add: columnTypeOf_def sanitizationDisabled_def text_typed_settings_def)
  have t: "js_trim (js ''Bob'') \<noteq> []" "js_trim (js ''12345-6789'') \<noteq> []"
    by (simp_all add: js_eval)
  have m: "\<not> matches emailPattern (js ''Bob'')" "\<not> matches autoCurrencyPattern (js ''Bob'')"
    "\<not> matches phonePattern (js ''Bob'')" "\<not> matches zipPattern (js ''Bob'')"
    "\<not> matches zipExtensionPattern (js ''Bob'')"
    by (simp_all add: emailPattern_def autoCurrencyPattern_def phonePattern_def zipPattern_def
        zipExtensionPattern_def js_def regex_syntax regex_run)
  have c1: "sanitizeCell example_runtime zip_only_options text_typed_settings
      [js ''zip'', js ''name''] (js ''zip'') (CStr (js ''12345-6789'')) = CStr (js ''12345-6789'')"
    using a b t by (simp add: sanitizeCell_def del: matches.simps)
  have c2: "sanitizeCell example_runtime zip_only_options text_typed_settings
      [js ''zip'', js ''name''] (js ''name'') (CStr (js ''Bob'')) = CStr (js ''Bob'')"
    using a b t m by (simp add: sanitizeCell_def del: matches.simps)
  have s1: "stripZipExtension text_typed_settings [js ''zip'', js ''name''] (js ''zip'')
      (CStr (js ''12345-6789'')) = CStr (js ''12345-6789'')"
    using b by (simp add: stripZipExtension_def del: matches.simps)
  have s2: "stripZipExtension text_typed_settings [js ''zip'', js ''name''] (js ''name'')
      (CStr (js ''Bob'')) = CStr (js ''Bob'')"
    using b m(5) by (simp add: stripZipExtension_def del: matches.simps)
  have "sanitizeData example_runtime zip_only_options text_typed_settings
         [js ''zip'', js ''name''] zip_rows = zip_rows"
    using a(1) by (simp add: sanitizeData_def zip_rows_def forEachKey_def jsonCopy_def
        c1 c2 s1 s2 del: matches.simps)
  with a(1) b(1) extended_zip_matches show ?thesis
    by blast
qed

section \<open>The ZIP and SSN sanitizers applied twice\<close>

lemma clean_filter: "replace_class (Neg alnum_ranges) [] s = filter alnum s"
proof -
  have "alnum = in_ranges alnum_ranges"
    by (rule ext) (simp add: alnum_def)
  then show ?thesis
    by (simp add: replace_class_delete)
qed

lemma alnum_bounds: "alnum c = (97 \<le> c \<and> c \<le> 122 \<or> 65 \<le> c \<and> c \<le> 90 \<or> 48 \<le> c \<and> c \<le> 57)"
  by (simp add: alnum_def alnum_ranges_def)

lemma alnum_units: "alnum 48" "\<not> alnum 45" "\<not> alnum 32"
  by (simp_all add: alnum_bounds)

lemma alnum_upper: "alnum c \<Longrightarrow> alnum (upper_unit c)"
  unfolding alnum_bounds upper_unit_def by (cases "97 \<le> c \<and> c \<le> 122") auto

lemma upper_upper: "upper_unit (upper_unit c) = upper_unit c"
  unfolding upper_unit_def by (cases "97 \<le> c \<and> c \<le> 122") auto

lemma upper_units: "upper_unit 48 = 48" "upper_unit 32 = 32"
  by (simp_all add: upper_unit_def)

lemma toUpperCase_idem: "toUpperCase (toUpperCase s) = toUpperCase s"
  by (simp add: toUpperCase_def upper_upper)

lemma toUpperCase_append: "toUpperCase (s @ t) = toUpperCase s @ toUpperCase t"
  by (simp add: toUpperCase_def)

lemma length_toUpperCase: "length (toUpperCase s) = length s"
  by (simp add: toUpperCase_def)

lemma toUpperCase_take: "toUpperCase (take n s) = take n (toUpperCase s)"
  by (simp add: toUpperCase_def take_map)

lemma toUpperCase_drop: "toUpperCase (drop n s) = drop n (toUpperCase s)"
  by (simp add: toUpperCase_def drop_map)

lemma all_alnum_filter: "all_alnum (filter alnum s)"
  by (simp add: all_alnum_def list_all_iff)

lemma all_alnum_clean: "all_alnum s \<Longrightarrow> filter alnum s = s"
  by (simp add: all_alnum_def list_all_iff)

lemma all_alnum_take: "all_alnum s \<Longrightarrow> all_alnum (take n s)"
  by (auto simp: all_alnum_def list_all_iff dest: in_set_takeD)

lemma all_alnum_drop: "all_alnum s \<Longrightarrow> all_alnum (drop n s)"
  by (auto simp: all_alnum_def list_all_iff dest: in_set_dropD)

lemma all_alnum_upper: "all_alnum s \<Longrightarrow> all_alnum (toUpperCase s)"
  by (auto simp: all_alnum_def list_all_iff toUpperCase_def alnum_upper)

lemma all_alnum_append: "all_alnum (s @ t) = (all_alnum s \<and> all_alnum t)"
  by (auto simp: all_alnum_def list_all_iff)

lemma all_alnum_zeros: "all_alnum (replicate n 48)"
  by (simp add: all_alnum_def list_all_iff alnum_units)


lemma js_space: "js '' '' = [32]"
  by (simp add: js_def)

lemmas zip_steps = formatZipCode_def clean_filter Let_def js_zero js_dash js_space
  padStart_single padEnd_single substring_take_drop substring_from_drop

lemma US_short:
  assumes "z \<noteq> []" and "length (filter alnum z) \<le> 5"
  shows "formatZipCode US k z = replicate (5 - length (filter alnum z)) 48 @ filter alnum z"
  using assms by (simp add: zip_steps)

lemma US_extended:
  assumes "z \<noteq> []" and "5 < length (filter alnum z)" and "length (filter alnum z) \<le> 9"
  shows "formatZipCode US True z
     = take 5 (filter alnum z) @ [45] @ drop 5 (filter alnum z)
         @ replicate (9 - length (filter alnum z)) 48"
  using assms by (simp add: zip_steps)

lemma US_extended_long:
  assumes "z \<noteq> []" and "9 < length (filter alnum z)"
  shows "formatZipCode US True z
     = take 5 (filter alnum z) @ [45] @ take 4 (drop 5 (filter alnum z))"
  using assms by (simp add: zip_steps)

lemma US_truncated:
  assumes "z \<noteq> []" and "5 < length (filter alnum z)"
  shows "formatZipCode US False z = take 5 (filter alnum z)"
  using assms by (simp add: zip_steps)

lemma US_idempotent: "formatZipCode US k (formatZipCode US k z) = formatZipCode US k z"
proof (cases "z = []")
  case True
  then show ?thesis by (simp add: formatZipCode_def)
next
  case False
  define c where "c = filter alnum z"
  have ca: "all_alnum c"
    by (simp add: c_def all_alnum_filter)
  consider (short) "length c \<le> 5" | (ext) "k" "5 < length c" "length c \<le> 9"
    | (long) "k" "9 < length c" | (trunc) "\<not> k" "5 < length c"
    by (cases k; cases "length c \<le> 5"; cases "length c \<le> 9") auto
  then show ?thesis
  proof cases
    case short
    define r where "r = replicate (5 - length c) 48 @ c"
    have r: "formatZipCode US k z = r"
      using False short by (simp add: US_short c_def r_def)
    have "all_alnum r"
      using ca by (simp add: r_def all_alnum_append all_alnum_zeros)
    then have fr: "filter alnum r = r"
      by (rule all_alnum_clean)
    have lr: "length r = 5"
      using short by (simp add: r_def)
    then have "r \<noteq> []" by auto
    then have "formatZipCode US k r = replicate (5 - length (filter alnum r)) 48 @ filter alnum r"
      using lr by (intro US_short) (simp_all add: fr)
    then show ?thesis
      by (simp add: r fr lr)
  next
    case ext
    define r where "r = take 5 c @ [45] @ drop 5 c @ replicate (9 - length c) 48"
    have r: "formatZipCode US k z = r"
      using False ext by (simp add: US_extended c_def r_def)
    have fr: "filter alnum r = c @ replicate (9 - length c) 48"
    proof -
      have "filter alnum r = filter alnum (take 5 c) @ filter alnum (drop 5 c)
          @ filter alnum (replicate (9 - length c) 48)"
        by (simp add: r_def alnum_units)
      also have "\<dots> = take 5 c @ drop 5 c @ replicate (9 - length c) 48"
        using ca by (simp add: all_alnum_clean all_alnum_take all_alnum_drop all_alnum_zeros)
      finally show ?thesis by simp
    qed
    have lf: "length (filter alnum r) = 9"
      using ext by (simp add: fr)
    have "r \<noteq> []" by (simp add: r_def)
    then have "formatZipCode US True r
        = take 5 (filter alnum r) @ [45] @ drop 5 (filter alnum r)
            @ replicate (9 - length (filter alnum r)) 48"
      using lf by (intro US_extended) simp_all
    also have "\<dots> = take 5 (c @ replicate (9 - length c) 48) @ [45]
        @ drop 5 (c @ replicate (9 - length c) 48)
        @ replicate (9 - length (c @ replicate (9 - length c) 48)) 48"
      unfolding fr ..
    also have "\<dots> = r"
      using ext by (simp add: r_def)
    finally show ?thesis
      using ext(1) r by simp
  next
    case long
    define r where "r = take 5 c @ [45] @ take 4 (drop 5 c)"
    have r: "formatZipCode US k z = r"
      using False long by (simp add: US_extended_long c_def r_def)
    have fr: "filter alnum r = take 5 c @ take 4 (drop 5 c)"
    proof -
      have "filter alnum r = filter alnum (take 5 c) @ filter alnum (take 4 (drop 5 c))"
        by (simp add: r_def alnum_units)
      also have "\<dots> = take 5 c @ take 4 (drop 5 c)"
        using ca by (simp add: all_alnum_clean all_alnum_take all_alnum_drop)
      finally show ?thesis .
    qed
    have lf: "length (filter alnum r) = 9"
      using long by (simp add: fr)
    have "r \<noteq> []" by (simp add: r_def)
    then have "formatZipCode US True r
        = take 5 (filter alnum r) @ [45] @ drop 5 (filter alnum r)
            @ replicate (9 - length (filter alnum r)) 48"
      using lf by (intro US_extended) simp_all
    also have "\<dots> = take 5 (take 5 c @ take 4 (drop 5 c)) @ [45]
        @ drop 5 (take 5 c @ take 4 (drop 5 c))
        @ replicate (9 - length (take 5 c @ take 4 (drop 5 c))) 48"
      unfolding fr ..
    also have "\<dots> = r"
      using long by (simp add: r_def)
    finally show ?thesis
      using long(1) r by simp
  next
    case trunc
    define r where "r = take 5 c"
    have r: "formatZipCode US k z = r"
      using False trunc by (simp add: US_truncated c_def r_def)
    have "all_alnum r"
      using ca by (simp add: r_def all_alnum_take)
    then have fr: "filter alnum r = r"
      by (rule all_alnum_clean)
    have lr: "length r = 5"
      using trunc by (simp add: r_def)
    then have "r \<noteq> []" by auto
    then have "formatZipCode US k r = replicate (5 - length (filter alnum r)) 48 @ filter alnum r"
      using lr by (intro US_short) (simp_all add: fr)
    then show ?thesis
      by (simp add: r fr lr)
  qed
qed


lemma toUpperCase_zeros: "toUpperCase (replicate n 48) = replicate n 48"
  by (simp add: toUpperCase_def upper_units)

lemma CA_short_idempotent:
  assumes "length (filter alnum z) \<le> 6"
  shows "formatZipCode CA k (formatZipCode CA k z) = formatZipCode CA k z"
proof (cases "z = []")
  case True
  then show ?thesis by (simp add: formatZipCode_def)
next
  case False
  define c where "c = filter alnum z"
  define r where "r = toUpperCase c @ replicate (6 - length c) 48"
  have r: "formatZipCode CA k z = r"
    using False assms by (simp add: zip_steps c_def r_def length_toUpperCase)
  have "all_alnum r"
    by (simp add: r_def c_def all_alnum_append all_alnum_zeros all_alnum_upper all_alnum_filter)
  then have fr: "filter alnum r = r"
    by (rule all_alnum_clean)
  have lr: "length r = 6"
    using assms by (simp add: r_def c_def length_toUpperCase)
  then have ne: "r \<noteq> []" by auto
  have up: "toUpperCase r = r"
    by (simp add: r_def toUpperCase_append toUpperCase_idem toUpperCase_zeros)
  have "formatZipCode CA k r = r"
    using ne lr by (simp add: zip_steps fr up)
  then show ?thesis
    by (simp add: r)
qed

lemma UK_idempotent: "formatZipCode UK k (formatZipCode UK k z) = formatZipCode UK k z"
proof (cases "z = []")
  case True
  then show ?thesis by (simp add: formatZipCode_def)
next
  case False
  define c where "c = filter alnum z"
  have ca: "all_alnum c"
    by (simp add: c_def all_alnum_filter)
  show ?thesis
  proof (cases "length c \<le> 4")
    case True
    define r where "r = toUpperCase c"
    have r: "formatZipCode UK k z = r"
      using False True by (simp add: zip_steps c_def r_def)
    have fr: "filter alnum r = r"
      using ca by (simp add: r_def all_alnum_clean all_alnum_upper)
    have lr: "length r \<le> 4"
      using True by (simp add: r_def length_toUpperCase)
    have "formatZipCode UK k r = r"
    proof (cases "r = []")
      case True
      then show ?thesis by (simp add: formatZipCode_def)
    next
      case False
      then show ?thesis
        using lr by (simp add: zip_steps fr) (simp add: r_def toUpperCase_idem)
    qed
    then show ?thesis
      by (simp add: r)
  next
    case False
    define n where "n = length c"
    define r where "r = toUpperCase (take (n - 3) c) @ [32] @ toUpperCase (drop (n - 3) c)"
    have r: "formatZipCode UK k z = r"
      using \<open>z \<noteq> []\<close> False
      by (simp add: zip_steps c_def [symmetric] n_def [symmetric] r_def toUpperCase_append
          toUpperCase_def upper_units)
    have "filter alnum r = filter alnum (toUpperCase (take (n - 3) c))
        @ filter alnum (toUpperCase (drop (n - 3) c))"
      by (simp add: r_def alnum_units)
    also have "\<dots> = toUpperCase (take (n - 3) c) @ toUpperCase (drop (n - 3) c)"
      using ca by (simp add: all_alnum_clean all_alnum_upper all_alnum_take all_alnum_drop)
    also have "\<dots> = toUpperCase c"
      by (simp add: toUpperCase_append [symmetric])
    finally have fr: "filter alnum r = toUpperCase c" .
    have ne: "r \<noteq> []" by (simp add: r_def)
    have lf: "\<not> length (toUpperCase c) \<le> 4" "length (toUpperCase c) = n"
      using False by (simp_all add: length_toUpperCase n_def)
    have "formatZipCode UK k r
        = toUpperCase (take (n - 3) (toUpperCase c) @ [32] @ drop (n - 3) (toUpperCase c))"
      using ne lf by (simp add: zip_steps fr)
    also have "\<dots> = toUpperCase (toUpperCase (take (n - 3) c)) @ toUpperCase [32]
        @ toUpperCase (toUpperCase (drop (n - 3) c))"
      by (simp only: toUpperCase_append toUpperCase_take toUpperCase_drop)
    also have "\<dots> = r"
      unfolding toUpperCase_idem r_def by (simp add: toUpperCase_def upper_units)
    finally show ?thesis
      by (simp add: r)
  qed
qed

lemma Other_idempotent: "formatZipCode Other k (formatZipCode Other k z) = formatZipCode Other k z"
proof (cases "z = []")
  case True
  then show ?thesis by (simp add: formatZipCode_def)
next
  case False
  then have r: "formatZipCode Other k z = filter alnum z"
    by (simp add: zip_steps)
  show ?thesis
  proof (cases "filter alnum z = []")
    case True
    then show ?thesis
      by (simp add: r) (simp add: formatZipCode_def)
  next
    case False
    then show ?thesis
      by (simp add: r) (simp add: zip_steps)
  qed
qed

lemma formatZipCode_idempotent:
  assumes "country \<noteq> CA \<or> length (filter alnum z) \<le> 6"
  shows "formatZipCode country k (formatZipCode country k z) = formatZipCode country k z"
  using assms
  by (cases country) (simp_all add: US_idempotent CA_short_idempotent UK_idempotent Other_idempotent)


lemma formatSSN_with_digits:
  assumes "filter is_digit s \<noteq> []"
  shows "formatSSN fmt s =
        (case fmt of
           SSN_Dashed \<Rightarrow> take 3 (ssn_nine s) @ [45] @ take 2 (drop 3 (ssn_nine s))
                          @ [45] @ drop 5 (ssn_nine s)
         | SSN_Digits \<Rightarrow> ssn_nine s
         | SSN_Masked \<Rightarrow> take 3 (ssn_nine s) @ [45] @ take 2 (drop 3 (ssn_nine s))
                          @ [45, 42, 42, 42, 42])"
proof -
  have m: "js ''-****'' = [45, 42, 42, 42, 42]"
    by (simp add: js_def)
  show ?thesis
    using assms
    by (cases fmt)
       (simp_all add: formatSSN_def keep_digits padded_is_nine Let_def js_dash m
          substring_take_drop substring_from_drop)
qed

lemma ssn_nine_digits: "length (ssn_nine s) = 9" "\<forall>c \<in> set (ssn_nine s). is_digit c"
proof -
  show "length (ssn_nine s) = 9"
    by (simp add: ssn_nine_def)
  have "is_digit 48"
    by (simp add: is_digit_bounds)
  then show "\<forall>c \<in> set (ssn_nine s). is_digit c"
    by (auto simp: ssn_nine_def dest!: in_set_takeD)
qed

lemma nine_split:
  assumes "length n = 9"
  shows "take 3 n @ take 2 (drop 3 n) @ drop 5 n = n"
proof -
  have "take (3 + 2) n = take 3 n @ take 2 (drop 3 n)"
    by (rule take_add)
  then have e: "take 3 n @ take 2 (drop 3 n) = take 5 n"
    by simp
  have "take 3 n @ take 2 (drop 3 n) @ drop 5 n = (take 3 n @ take 2 (drop 3 n)) @ drop 5 n"
    by simp
  also have "\<dots> = take 5 n @ drop 5 n"
    by (simp only: e)
  also have "\<dots> = n"
    by simp
  finally show ?thesis .
qed

lemma formatSSN_idempotent: "formatSSN fmt (formatSSN fmt s) = formatSSN fmt s"
proof (cases "filter is_digit s = []")
  case True
  then have "formatSSN fmt s = s"
    by (simp add: formatSSN_def keep_digits)
  then show ?thesis
    by simp
next
  case False
  define n where "n = ssn_nine s"
  have len: "length n = 9" and dig: "\<forall>c \<in> set n. is_digit c"
    by (simp_all add: n_def ssn_nine_digits)
  have nd: "\<not> is_digit 45" "\<not> is_digit 42"
    by (simp_all add: is_digit_bounds)
  have f3: "filter is_digit (take 3 n) = take 3 n"
    and f2: "filter is_digit (take 2 (drop 3 n)) = take 2 (drop 3 n)"
    and f5: "filter is_digit (drop 5 n) = drop 5 n"
    using dig by (auto simp: filter_id_conv dest: in_set_takeD in_set_dropD)
  show ?thesis
  proof (cases fmt)
    case SSN_Dashed
    define r where "r = take 3 n @ [45] @ take 2 (drop 3 n) @ [45] @ drop 5 n"
    have r: "formatSSN fmt s = r"
      using False by (simp add: formatSSN_with_digits SSN_Dashed r_def n_def)
    have fr: "filter is_digit r = n"
      using nine_split [OF len] by (simp add: r_def nd f3 f2 f5)
    then have "ssn_nine r = n"
      using len by (simp add: ssn_nine_def)
    moreover have "filter is_digit r \<noteq> []"
      using fr len by auto
    ultimately have "formatSSN fmt r = r"
      by (simp add: formatSSN_with_digits SSN_Dashed r_def)
    then show ?thesis
      by (simp add: r)
  next
    case SSN_Digits
    have r: "formatSSN fmt s = n"
      using False by (simp add: formatSSN_with_digits SSN_Digits n_def)
    have fr: "filter is_digit n = n"
      using dig by (simp add: filter_id_conv)
    then have "ssn_nine n = n"
      using len by (simp add: ssn_nine_def)
    moreover have "filter is_digit n \<noteq> []"
      using fr len by auto
    ultimately have "formatSSN fmt n = n"
      by (simp add: formatSSN_with_digits SSN_Digits)
    then show ?thesis
      by (simp add: r)
  next
    case SSN_Masked
    define r where "r = take 3 n @ [45] @ take 2 (drop 3 n) @ [45, 42, 42, 42, 42]"
    have r: "formatSSN fmt s = r"
      using False by (simp add: formatSSN_with_digits SSN_Masked r_def n_def)
    have fr: "filter is_digit r = take 3 n @ take 2 (drop 3 n)"
      by (simp add: r_def nd f3 f2)
    have n9: "ssn_nine r = take 3 n @ take 2 (drop 3 n) @ replicate 4 48"
      using len by (simp add: ssn_nine_def fr)
    have "filter is_digit r \<noteq> []"
      using len by (simp add: fr)
    then have "formatSSN fmt r = take 3 (ssn_nine r) @ [45] @ take 2 (drop 3 (ssn_nine r))
        @ [45, 42, 42, 42, 42]"
      by (simp add: formatSSN_with_digits SSN_Masked)
    also have "\<dots> = take 3 (take 3 n @ take 2 (drop 3 n) @ replicate 4 48) @ [45]
        @ take 2 (drop 3 (take 3 n @ take 2 (drop 3 n) @ replicate 4 48))
        @ [45, 42, 42, 42, 42]"
      unfolding n9 ..
    also have "\<dots> = r"
      using len by (simp add: r_def)
    finally show ?thesis
      by (simp add: r)
  qed
qed

lemmas zip_eval = formatZipCode_def alnum_ranges_def toUpperCase_def upper_unit_def
  substring_def substring_from_def padEnd_def padStart_def pad_fill_def js_def Let_def

text \<open>
  C7. Sanitizing a sanitized value again should give the same value. The two examples of
  the claim do: the US code 12345 and the SSN 123-45-6789 in the dashed format come back
  unchanged, and so does every value under every option of the two sanitizers (the two
  idempotence lemmas above) but one: for a Canadian code of more than six characters the
  long branch inserts the space of the A1A 1A1 layout, and sanitizing its result again
  takes the short branch, which drops the space.
\<close>

theorem canadian_code_resanitized:
  "formatZipCode US False (js ''12345'') = js ''12345''
   \<and> formatSSN SSN_Dashed (js ''123-45-6789'') = js ''123-45-6789''
   \<and> formatZipCode CA False (js ''K1A0B1X'') = js ''K1A 0B1''
   \<and> formatZipCode CA False (js ''K1A 0B1'') = js ''K1A0B1''
   \<and> formatZipCode CA False (js ''K1A 0B1'') \<noteq> js ''K1A 0B1''"
proof -
  have a: "formatZipCode US False (js ''12345'') = js ''12345''"
    by (simp add: zip_eval)
  have b: "formatSSN SSN_Dashed (js ''123-45-6789'') = js ''123-45-6789''"
    by (simp add: formatSSN_def digit_ranges_def substring_def substring_from_def padEnd_def
        js_def Let_def)
  have c: "formatZipCode CA False (js ''K1A0B1X'') = js ''K1A 0B1''"
    by (simp add: zip_eval)
  have d: "formatZipCode CA False (js ''K1A 0B1'') = js ''K1A0B1''"
    by (simp add: zip_eval)
  have e: "js ''K1A0B1'' \<noteq> js ''K1A 0B1''"
    by (simp add: js_def)
  from a b c d e show ?thesis
    by simp
qed
end
